theory Spec2Isabelle
  imports Complex_Main
begin

section \<open>Tensors\<close>

text \<open>
  Tensor entries are real numbers: the arithmetic of the code is followed exactly, the
  rounding of the machine's floating-point numbers is not modelled. A vector is a list,
  a matrix the list of its rows, a batch the list of its matrices. The theorems assume
  the shapes the docstrings give. Two computations are given a second time where a
  property depends on the numbers of the machine: the ridge update with every result
  rounded, and the transformation of the normalizer over the reals extended by the
  infinities and NaN.
\<close>

type_synonym vec = "real list"
type_synonym mat = "real list list"

definition size0 :: "'a list list \<Rightarrow> nat" where
  "size0 M = length M"

definition size1 :: "'a list list \<Rightarrow> nat" where
  "size1 M = (case M of [] \<Rightarrow> 0 | r # _ \<Rightarrow> length r)"

definition shape :: "'a list list \<Rightarrow> nat \<times> nat" where
  "shape M = (size0 M, size1 M)"

definition wf_mat :: "nat \<Rightarrow> nat \<Rightarrow> 'a list list \<Rightarrow> bool" where
  "wf_mat n m M = (length M = n \<and> list_all (\<lambda>r. length r = m) M)"

definition dot :: "vec \<Rightarrow> vec \<Rightarrow> real" where
  "dot u v = sum_list (map2 (*) u v)"

definition col :: "'a list list \<Rightarrow> nat \<Rightarrow> 'a list" where
  "col M k = map (\<lambda>r. r ! k) M"

definition set_col :: "'a list list \<Rightarrow> nat \<Rightarrow> 'a list \<Rightarrow> 'a list list" where
  "set_col M k v = map2 (\<lambda>r a. r[k := a]) M v"

definition mT :: "'a list list \<Rightarrow> 'a list list" where
  "mT M = map (col M) [0..<size1 M]"

definition matvec :: "mat \<Rightarrow> vec \<Rightarrow> vec" where
  "matvec A v = map (\<lambda>a. dot a v) A"

definition vecmat :: "vec \<Rightarrow> mat \<Rightarrow> vec" where
  "vecmat u B = map (\<lambda>j. dot u (col B j)) [0..<size1 B]"

definition matmul :: "mat \<Rightarrow> mat \<Rightarrow> mat" where
  "matmul A B = map (\<lambda>a. vecmat a B) A"

definition msub :: "mat \<Rightarrow> mat \<Rightarrow> mat" where
  "msub A B = map2 (map2 (-)) A B"

definition madd :: "mat \<Rightarrow> mat \<Rightarrow> mat" where
  "madd A B = map2 (map2 (+)) A B"

definition outer :: "vec \<Rightarrow> vec \<Rightarrow> mat" where
  "outer u v = map (\<lambda>a. map (\<lambda>b. a * b) v) u"

definition vnorm :: "vec \<Rightarrow> real" where
  "vnorm v = sqrt (sum_list (map (\<lambda>a. a\<^sup>2) v))"

definition norm_p2 :: "mat \<Rightarrow> real" where
  "norm_p2 M = vnorm (concat M)"

definition norm_p1 :: "mat \<Rightarrow> real" where
  "norm_p1 M = sum_list (map abs (concat M))"

definition mean0 :: "real \<Rightarrow> real" where
  \<comment> \<open>\<open>.mean()\<close> of a tensor with no dimension: the mean of its one entry\<close>
  "mean0 v = sum_list [v] / real (length [v])"

definition clamp_min :: "real \<Rightarrow> vec \<Rightarrow> vec" where
  "clamp_min lo v = map (max lo) v"

section \<open>Random generator, errors, effects, collaborators\<close>

text \<open>
  A \<open>torch.Generator\<close> is the sequence of the standard normal draws it will hand
  out; \<open>normal_\<close> on \<open>n\<close> entries returns the first \<open>n\<close> draws and the generator advanced by
  \<open>n\<close>, \<open>randn\<close> fills a matrix row by row.
\<close>

type_synonym generator = "nat \<Rightarrow> real"

definition normal_fill :: "generator \<Rightarrow> nat \<Rightarrow> vec \<times> generator" where
  "normal_fill g n = (map g [0..<n], \<lambda>i. g (i + n))"

datatype error =
    AssertionError
  | ValueError string
  | NotImplementedError string
  | LinAlgError
  | RuntimeError
  | AttributeError string

datatype event =
    Warning string
  | InitializeCode string
  | CoordDescent
  | Ista
  | Progress real

text \<open>The argument \<open>z0\<close> of the solvers: a tensor, the name of an initialisation, or absent.\<close>

datatype code_init = Tensor mat | Mode string | Default

type_synonym kwargs = "(string \<times> real) list"

text \<open>
  The functions imported from the modules \<open>solver\<close>, \<open>sparse_util\<close>, \<open>eps\<close>,
  \<open>conversion.od\<close> and \<open>stain_extraction.utils\<close>, and \<open>torch.nn.init.orthogonal_\<close>, are
  parameters of the model. A solver may raise; the ones that take the generator hand it
  back.
\<close>

record collab =
  initialize_code :: "mat \<Rightarrow> mat \<Rightarrow> real \<Rightarrow> string \<Rightarrow> generator \<Rightarrow> (error + mat) \<times> generator"
  coord_descent :: "mat \<Rightarrow> mat \<Rightarrow> code_init \<Rightarrow> real \<Rightarrow> kwargs \<Rightarrow> error + mat"
  ista :: "mat \<Rightarrow> code_init \<Rightarrow> mat \<Rightarrow> real \<Rightarrow> generator \<Rightarrow> kwargs \<Rightarrow> (error + mat) \<times> generator"
  get_eps :: "mat \<Rightarrow> real"
  orthogonal_init :: "mat \<Rightarrow> mat"
  rgb2od :: "real list list list list \<Rightarrow> real list list list list"
  percentile :: "real list list list \<Rightarrow> nat \<Rightarrow> nat \<Rightarrow> mat"

section \<open>The loss\<close>

definition lasso_loss :: "mat \<Rightarrow> mat \<Rightarrow> mat \<Rightarrow> real \<Rightarrow> real" where
  "lasso_loss X Z weight alpha =
     (let X_hat = matmul Z (mT weight);
          lambda2 = 10 / 10 ^ 10;
          lambda1 = 1 / 10;
          loss = (1 / 2) * (norm_p2 (msub X X_hat))\<^sup>2 + norm_p1 weight * lambda1
                 + lambda2 * (norm_p2 weight)\<^sup>2
      in mean0 loss)"

text \<open>The loss as the specification words it: the mean over the samples (the rows).\<close>

definition mean_over_samples :: "real list \<Rightarrow> real" where
  "mean_over_samples xs = sum_list xs / real (length xs)"

definition spec_lasso_loss :: "mat \<Rightarrow> mat \<Rightarrow> mat \<Rightarrow> real \<Rightarrow> real" where
  "spec_lasso_loss X Z W alpha =
     mean_over_samples (map (\<lambda>r. (1 / 2) * (vnorm r)\<^sup>2) (msub X (matmul Z (mT W))))
     + (1 / 10) * norm_p1 W + (1 / 10 ^ 9) * (norm_p2 W)\<^sup>2"

section \<open>Sparse coding\<close>

definition init_defaults :: "string \<rightharpoonup> string" where
  "init_defaults = [''ista'' \<mapsto> ''zero'', ''cd'' \<mapsto> ''zero'']"

definition invalid_algorithm :: "string \<Rightarrow> string" where
  "invalid_algorithm algorithm =
     ''invalid algorithm parameter '' @ [CHR 0x27] @ algorithm @ [CHR 0x27] @ ''.''"

text \<open>
  The outcome of a call is its result or the exception raised, together with the effects
  it had: the warnings and collaborator calls in order, and the generator as it is left.
\<close>

type_synonym 'a outcome = "(error + 'a) \<times> event list \<times> generator"

definition initial_code :: "collab \<Rightarrow> mat \<Rightarrow> mat \<Rightarrow> real \<Rightarrow> mat option \<Rightarrow> string \<Rightarrow> string option
    \<Rightarrow> generator \<Rightarrow> mat outcome" where
  "initial_code c x weight alpha z0 algorithm init rng =
     (let n_samples = size0 x; n_components = size1 weight in
      case z0 of
        Some z \<Rightarrow>
          if shape z = (n_samples, n_components) then (Inr z, [], rng)
          else (Inl AssertionError, [], rng)
      | None \<Rightarrow>
          (let (init', warned) =
                 (case init of
                    None \<Rightarrow> (case init_defaults algorithm of Some m \<Rightarrow> m | None \<Rightarrow> ''zero'', [])
                  | Some m \<Rightarrow>
                      (m, if m = ''zero'' \<and> algorithm = ''iter-ridge''
                          then [Warning ''Iterative Ridge should not be zero-initialized.'']
                          else []));
               (r, rng') = initialize_code c x weight alpha init' rng
           in (r, warned @ [InitializeCode init'], rng')))"

definition sparse_encode :: "collab \<Rightarrow> mat \<Rightarrow> mat \<Rightarrow> real \<Rightarrow> mat option \<Rightarrow> string \<Rightarrow> string option
    \<Rightarrow> generator \<Rightarrow> kwargs \<Rightarrow> mat outcome" where
  "sparse_encode c x weight alpha z0 algorithm init rng kw =
     (case initial_code c x weight alpha z0 algorithm init rng of
        (Inl e, ev, rng') \<Rightarrow> (Inl e, ev, rng')
      | (Inr z, ev, rng') \<Rightarrow>
          if algorithm = ''cd'' then
            (coord_descent c x weight (Tensor z) alpha kw, ev @ [CoordDescent], rng')
          else if algorithm = ''ista'' then
            (let (r, rng'') = ista c x (Tensor z) weight alpha rng' kw
             in (r, ev @ [Ista], rng''))
          else (Inl (ValueError (invalid_algorithm algorithm)), ev, rng'))"

section \<open>Dictionary update\<close>

record ud_state =
  ud_dictionary :: mat
  ud_code :: mat
  ud_R :: mat
  ud_rng :: generator

definition update_atom :: "collab \<Rightarrow> bool \<Rightarrow> real \<Rightarrow> nat \<Rightarrow> ud_state \<Rightarrow> ud_state" where
  "update_atom c positive eps k s =
     (let dictionary = ud_dictionary s; code = ud_code s;
          R = madd (ud_R s) (outer (col code k) (col dictionary k));
          dictionary = set_col dictionary k (vecmat (col code k) R);
          dictionary = (if positive then set_col dictionary k (clamp_min 0 (col dictionary k))
                        else dictionary);
          atom_norm = vnorm (col dictionary k)
      in if atom_norm < eps then
           (let (z, rng) = normal_fill (ud_rng s) (length (col dictionary k));
                dictionary = set_col dictionary k z;
                dictionary =
                  (if positive then
                     (let d = set_col dictionary k (clamp_min 0 (col dictionary k))
                      in set_col d k (map abs (col d k)))
                   else dictionary);
                column_norm = vnorm (col dictionary k) + get_eps c dictionary;
                dictionary = set_col dictionary k (map (\<lambda>a. a / column_norm) (col dictionary k));
                code = set_col code k (map (\<lambda>_. 0) (col code k))
            in \<lparr>ud_dictionary = dictionary, ud_code = code, ud_R = R, ud_rng = rng\<rparr>)
         else
           (let dictionary = set_col dictionary k (map (\<lambda>a. a / atom_norm) (col dictionary k));
                R = msub R (outer (col code k) (col dictionary k))
            in \<lparr>ud_dictionary = dictionary, ud_code = code, ud_R = R, ud_rng = ud_rng s\<rparr>))"

text \<open>
  \<open>update_dict\<close> changes the dictionary and the code in place and draws from the
  generator: the model returns the three of them.
\<close>

definition update_dict :: "collab \<Rightarrow> mat \<Rightarrow> mat \<Rightarrow> mat \<Rightarrow> bool \<Rightarrow> real \<Rightarrow> generator
    \<Rightarrow> mat \<times> mat \<times> generator" where
  "update_dict c dictionary x code positive eps rng =
     (let n_components = size1 dictionary;
          R = msub x (matmul code (mT dictionary));
          s = fold (update_atom c positive eps) [0..<n_components]
                \<lparr>ud_dictionary = dictionary, ud_code = code, ud_R = R, ud_rng = rng\<rparr>
      in (ud_dictionary s, ud_code s, ud_rng s))"

definition eps_default :: real where
  "eps_default = 1 / 10 ^ 7"

section \<open>Ridge update\<close>

text \<open>
  Modelled from the spec: \<open>torch.linalg.cholesky\<close> and \<open>torch.cholesky_solve\<close>, in
  exact arithmetic. The factorisation reads the lower triangle, takes the square root of
  each pivot and fails at the first pivot that is not positive; the solve substitutes
  forward through \<open>L\<close> and backward through its transpose, column by column of the
  right-hand side.
\<close>

fun cholesky :: "mat \<Rightarrow> error + mat" where
  "cholesky [] = Inr []"
| "cholesky ([] # rows) = Inl RuntimeError"
| "cholesky ((a # r) # rows) =
     (if a \<le> 0 then Inl LinAlgError
      else
        (let l = sqrt a;
             v = map (\<lambda>q. hd q / l) rows;
             S = map2 (\<lambda>vi q. map2 (\<lambda>vj b. b - vi * vj) v (tl q)) v rows
         in case cholesky S of
              Inl e \<Rightarrow> Inl e
            | Inr L' \<Rightarrow> Inr ((l # map (\<lambda>_. 0) rows) # map2 (#) v L')))"

fun forward_subst :: "mat \<Rightarrow> vec \<Rightarrow> vec" where
  "forward_subst [] b = []"
| "forward_subst (r # rows) b =
     (let y0 = hd b / hd r
      in y0 # forward_subst (map tl rows) (map2 (\<lambda>q bi. bi - hd q * y0) rows (tl b)))"

fun backward_subst :: "mat \<Rightarrow> vec \<Rightarrow> vec" where
  "backward_subst [] y = []"
| "backward_subst (r # rows) y =
     (let xs = backward_subst (map tl rows) (tl y)
      in (hd y - dot (map hd rows) xs) / hd r # xs)"

definition cholesky_solve :: "mat \<Rightarrow> mat \<Rightarrow> mat" where
  "cholesky_solve B L = mT (map (\<lambda>b. backward_subst L (forward_subst L b)) (mT B))"

definition add_diagonal :: "mat \<Rightarrow> real \<Rightarrow> mat" where
  "add_diagonal M a = map (\<lambda>(i, r). r[i := r ! i + a]) (enumerate 0 M)"

definition update_dict_ridge :: "mat \<Rightarrow> mat \<Rightarrow> real \<Rightarrow> error + mat" where
  "update_dict_ridge x code lambd =
     (let rhs = matmul (mT code) x;
          M = matmul (mT code) code;
          M = add_diagonal M (lambd * real (size0 x))
      in case cholesky M of
           Inl e \<Rightarrow> Inl e
         | Inr L \<Rightarrow> Inr (mT (cholesky_solve rhs L)))"

text \<open>Positive definiteness, and the system the ridge update is to solve.\<close>

definition pos_def :: "mat \<Rightarrow> bool" where
  "pos_def M = (\<forall>v. length v = length M \<and> (\<exists>a \<in> set v. a \<noteq> 0) \<longrightarrow> 0 < dot v (matvec M v))"

fun symmetric :: "mat \<Rightarrow> bool" where
  "symmetric [] = True"
| "symmetric ([] # rows) = False"
| "symmetric ((a # r) # rows) =
     (r = map hd rows \<and> list_all (\<lambda>q. length q = Suc (length rows)) rows
      \<and> symmetric (map tl rows))"

text \<open>The matrix the factorisation recurses on, after the pivot \<open>l * l\<close> of the first row.\<close>

definition schur :: "real \<Rightarrow> mat \<Rightarrow> mat" where
  "schur l rows = (let v = map (\<lambda>q. hd q / l) rows
                   in map2 (\<lambda>vi q. map2 (\<lambda>vj b. b - vi * vj) v (tl q)) v rows)"

definition normal_matrix :: "mat \<Rightarrow> real \<Rightarrow> mat" where
  "normal_matrix Z lambd = add_diagonal (matmul (mT Z) Z) (lambd * real (length Z))"

section \<open>The ridge update in rounded arithmetic\<close>

text \<open>
  The same computation with every arithmetic result rounded by a function \<open>fl\<close>: the
  dot products of \<open>torch.mm\<close> accumulated entry by entry, the shift of the diagonal, the
  factorisation (square root, quotient, product and difference each rounded, and the
  pivot tested as computed) and the two substitutions. The identity as \<open>fl\<close> is the exact
  arithmetic above. \<open>round_to p\<close> rounds to the nearest number with a significand of \<open>p\<close>
  bits, ties to the even significand, with an exponent that is not bounded; \<open>binary32\<close>, the
  default element type of a tensor, has a significand of 24 bits, \<open>binary64\<close> one of 53.
\<close>

definition rne :: "real \<Rightarrow> int" where
  "rne y = (let n = \<lfloor>y\<rfloor>
            in if y - of_int n < 1 / 2 then n
               else if 1 / 2 < y - of_int n then n + 1
               else if even n then n else n + 1)"

definition round_to :: "nat \<Rightarrow> real \<Rightarrow> real" where
  "round_to p x =
     (if x = 0 then 0
      else (let e = \<lfloor>log 2 \<bar>x\<bar>\<rfloor>
            in of_int (rne (x * 2 powi (int p - 1 - e))) * 2 powi (e - (int p - 1))))"

definition binary32 :: "real \<Rightarrow> real" where
  "binary32 = round_to 24"

definition binary64 :: "real \<Rightarrow> real" where
  "binary64 = round_to 53"

definition dot_fl :: "(real \<Rightarrow> real) \<Rightarrow> vec \<Rightarrow> vec \<Rightarrow> real" where
  "dot_fl fl u v = foldl (\<lambda>acc (a, b). fl (acc + fl (a * b))) 0 (zip u v)"

definition vecmat_fl :: "(real \<Rightarrow> real) \<Rightarrow> vec \<Rightarrow> mat \<Rightarrow> vec" where
  "vecmat_fl fl u B = map (\<lambda>j. dot_fl fl u (col B j)) [0..<size1 B]"

definition matmul_fl :: "(real \<Rightarrow> real) \<Rightarrow> mat \<Rightarrow> mat \<Rightarrow> mat" where
  "matmul_fl fl A B = map (\<lambda>a. vecmat_fl fl a B) A"

fun cholesky_fl :: "(real \<Rightarrow> real) \<Rightarrow> mat \<Rightarrow> error + mat" where
  "cholesky_fl fl [] = Inr []"
| "cholesky_fl fl ([] # rows) = Inl RuntimeError"
| "cholesky_fl fl ((a # r) # rows) =
     (if a \<le> 0 then Inl LinAlgError
      else
        (let l = fl (sqrt a);
             v = map (\<lambda>q. fl (hd q / l)) rows;
             S = map2 (\<lambda>vi q. map2 (\<lambda>vj b. fl (b - fl (vi * vj))) v (tl q)) v rows
         in case cholesky_fl fl S of
              Inl e \<Rightarrow> Inl e
            | Inr L' \<Rightarrow> Inr ((l # map (\<lambda>_. 0) rows) # map2 (#) v L')))"

fun forward_subst_fl :: "(real \<Rightarrow> real) \<Rightarrow> mat \<Rightarrow> vec \<Rightarrow> vec" where
  "forward_subst_fl fl [] b = []"
| "forward_subst_fl fl (r # rows) b =
     (let y0 = fl (hd b / hd r)
      in y0 # forward_subst_fl fl (map tl rows)
                (map2 (\<lambda>q bi. fl (bi - fl (hd q * y0))) rows (tl b)))"

fun backward_subst_fl :: "(real \<Rightarrow> real) \<Rightarrow> mat \<Rightarrow> vec \<Rightarrow> vec" where
  "backward_subst_fl fl [] y = []"
| "backward_subst_fl fl (r # rows) y =
     (let xs = backward_subst_fl fl (map tl rows) (tl y)
      in fl (fl (hd y - dot_fl fl (map hd rows) xs) / hd r) # xs)"

definition cholesky_solve_fl :: "(real \<Rightarrow> real) \<Rightarrow> mat \<Rightarrow> mat \<Rightarrow> mat" where
  "cholesky_solve_fl fl B L =
     mT (map (\<lambda>b. backward_subst_fl fl L (forward_subst_fl fl L b)) (mT B))"

definition add_diagonal_fl :: "(real \<Rightarrow> real) \<Rightarrow> mat \<Rightarrow> real \<Rightarrow> mat" where
  "add_diagonal_fl fl M a = map (\<lambda>(i, r). r[i := fl (r ! i + a)]) (enumerate 0 M)"

definition update_dict_ridge_fl :: "(real \<Rightarrow> real) \<Rightarrow> mat \<Rightarrow> mat \<Rightarrow> real \<Rightarrow> error + mat" where
  "update_dict_ridge_fl fl x code lambd =
     (let rhs = matmul_fl fl (mT code) x;
          M = matmul_fl fl (mT code) code;
          M = add_diagonal_fl fl M (fl (lambd * real (size0 x)))
      in case cholesky_fl fl M of
           Inl e \<Rightarrow> Inl e
         | Inr L \<Rightarrow> Inr (mT (cholesky_solve_fl fl rhs L)))"

section \<open>Dictionary learning\<close>








text \<open>
  What a run observes: the losses signalled to the progress bar, in order, and the number
  of solver calls.
\<close>

definition progress_losses :: "event list \<Rightarrow> real list" where
  "progress_losses ev = concat (map (\<lambda>e. case e of Progress l \<Rightarrow> [l] | _ \<Rightarrow> []) ev)"

definition solver_calls :: "event list \<Rightarrow> nat" where
  "solver_calls ev = length (filter (\<lambda>e. e = CoordDescent \<or> e = Ista) ev)"




section \<open>Concentrations\<close>

type_synonym batch = "mat list"
type_synonym image = "real list list list list"

definition get_concentrations_helper :: "collab \<Rightarrow> mat \<Rightarrow> mat \<Rightarrow> real \<Rightarrow> string \<Rightarrow> generator
    \<Rightarrow> (error + mat) \<times> generator" where
  "get_concentrations_helper c od_flatten stain_matrix regularizer method rng =
     (if method = ''cd'' then
        (map_sum id mT (coord_descent c od_flatten (mT stain_matrix) Default regularizer []), rng)
      else if method = ''ista'' then
        (let (r, rng') = ista c od_flatten (Mode ''ridge'') (mT stain_matrix) regularizer rng []
         in (map_sum id mT r, rng'))
      else (Inl (NotImplementedError (method @ '' is not a valid optimizer'')), rng))"

fun gc_loop :: "collab \<Rightarrow> real \<Rightarrow> string \<Rightarrow> (mat \<times> mat) list \<Rightarrow> generator
    \<Rightarrow> (error + batch) \<times> generator" where
  "gc_loop c regularizer algorithm [] rng = (Inr [], rng)"
| "gc_loop c regularizer algorithm ((od_single, stain_mat_single) # rest) rng =
     (case get_concentrations_helper c od_single stain_mat_single regularizer algorithm rng of
        (Inl e, rng') \<Rightarrow> (Inl e, rng')
      | (Inr r, rng') \<Rightarrow>
          (case gc_loop c regularizer algorithm rest rng' of
             (Inl e, rng'') \<Rightarrow> (Inl e, rng'')
           | (Inr result, rng'') \<Rightarrow> (Inr (r # result), rng'')))"

definition get_concentrations :: "collab \<Rightarrow> image \<Rightarrow> batch \<Rightarrow> real \<Rightarrow> string \<Rightarrow> generator
    \<Rightarrow> (error + batch) \<times> generator" where
  "get_concentrations c img stain_matrix regularizer algorithm rng =
     (let od = rgb2od c img;
          od_flatten = map (\<lambda>im. mT (map concat im)) od
      in case gc_loop c regularizer algorithm (zip od_flatten stain_matrix) rng of
           (Inl e, rng') \<Rightarrow> (Inl e, rng')
         | (Inr result, rng') \<Rightarrow> (if result = [] then Inl RuntimeError else Inr result, rng'))"

section \<open>The stain-separation normalizer\<close>

text \<open>
  A tensor is a view of a storage: its address in the list of the storages allocated so
  far, and whether the two trailing dimensions are swapped.
  \<open>torch.einsum("ijk -> ikj", mat)\<close> returns such a view of the storage of \<open>mat\<close>, and an
  in-place operation on one view is seen through every other.
\<close>

type_synonym addr = nat
type_synonym store = "batch list"

datatype tensor3 = View addr bool

definition rd :: "'a list list list list \<Rightarrow> tensor3 \<Rightarrow> 'a list list list" where
  "rd st t = (case t of View a swapped \<Rightarrow>
     (if a < length st then (if swapped then map mT (st ! a) else st ! a) else []))"

definition wr :: "'a list list list list \<Rightarrow> tensor3 \<Rightarrow> 'a list list list \<Rightarrow> 'a list list list list" where
  "wr st t d = (case t of View a swapped \<Rightarrow> st[a := (if swapped then map mT d else d)])"

definition alloc :: "'a list list list list \<Rightarrow> 'a list list list \<Rightarrow> tensor3 \<times> 'a list list list list" where
  "alloc st d = (View (length st) False, st @ [d])"

definition transpose_trailing :: "tensor3 \<Rightarrow> tensor3" where
  "transpose_trailing t = (case t of View a swapped \<Rightarrow> View a (\<not> swapped))"

definition imul :: "store \<Rightarrow> tensor3 \<Rightarrow> batch \<Rightarrow> store" where
  \<comment> \<open>\<open>t *= other\<close>, the last dimension of \<open>other\<close> of size one\<close>
  "imul st t other =
     wr st t (map2 (map2 (\<lambda>row s. map (\<lambda>v. v * hd s) row)) (rd st t) other)"

definition div_broadcast :: "mat \<Rightarrow> mat \<Rightarrow> mat" where
  "div_broadcast A B =
     (if length A = 1 then map (\<lambda>b. map2 (/) (hd A) b) B
      else if length B = 1 then map (\<lambda>a. map2 (/) a (hd B)) A
      else map2 (map2 (/)) A B)"

definition unsqueeze_last :: "'a list list \<Rightarrow> 'a list list list" where
  "unsqueeze_last M = map (map (\<lambda>v. [v])) M"

definition batch_matmul :: "batch \<Rightarrow> batch \<Rightarrow> batch" where
  "batch_matmul A B =
     (if length B = 1 then map (\<lambda>a. matmul a (hd B)) A
      else if length A = 1 then map (\<lambda>b. matmul (hd A) b) B
      else map2 matmul A B)"

definition shape4 :: "image \<Rightarrow> nat \<times> nat \<times> nat \<times> nat" where
  "shape4 im = (length im, size1 im, size1 (concat im), size1 (concat (concat im)))"

definition reshape4 :: "'a list list list \<Rightarrow> nat \<times> nat \<times> nat \<times> nat \<Rightarrow> error + 'a list list list list" where
  "reshape4 t shp =
     (case shp of (b, ch, h, w) \<Rightarrow>
        (let flat = concat (concat t)
         in if length flat \<noteq> b * ch * h * w then Inl RuntimeError
            else Inr (map (\<lambda>i. map (\<lambda>j. map (\<lambda>k. take w (drop (((i * ch + j) * h + k) * w) flat))
                                             [0..<h]) [0..<ch]) [0..<b])))"

definition wf_image :: "nat \<Rightarrow> nat \<Rightarrow> nat \<Rightarrow> nat \<Rightarrow> 'a list list list list \<Rightarrow> bool" where
  "wf_image b ch h w im =
     (length im = b \<and> list_all (\<lambda>x. length x = ch \<and>
        list_all (\<lambda>y. length y = h \<and> list_all (\<lambda>z. length z = w) y) x) im)"

definition clamp :: "real \<Rightarrow> real \<Rightarrow> image \<Rightarrow> image" where
  "clamp lo hi im = map (map (map (map (\<lambda>v. min (max v lo) hi)))) im"

record normalizer =
  reconst_method :: string
  get_stain_matrix :: "image \<Rightarrow> error + batch"
  stain_matrix_target :: "batch option"
  target_concentrations :: "batch option"
  maxC_target :: "mat option"
  stain_matrix_source :: "batch option"

definition fit :: "collab \<Rightarrow> normalizer \<Rightarrow> image \<Rightarrow> real \<Rightarrow> generator
    \<Rightarrow> (error + unit) \<times> normalizer \<times> generator" where
  "fit c self target regularizer rng =
     (if length target \<noteq> 1 then (Inl AssertionError, self, rng)
      else
        (case get_stain_matrix self target of
           Inl e \<Rightarrow> (Inl e, self, rng)
         | Inr smt \<Rightarrow>
             (let self = self\<lparr>stain_matrix_target := Some smt\<rparr>
              in case get_concentrations c target smt regularizer (reconst_method self) rng of
                   (Inl e, rng') \<Rightarrow> (Inl e, self, rng')
                 | (Inr target_conc, rng') \<Rightarrow>
                     (let self = self\<lparr>target_concentrations := Some target_conc\<rparr>;
                          conc_transpose = map mT target_conc;
                          max_c_target = percentile c conc_transpose 99 1
                      in (Inr (), self\<lparr>maxC_target := Some max_c_target\<rparr>, rng')))))"

definition fix_source_stain_matrix :: "normalizer \<Rightarrow> image \<Rightarrow> (error + unit) \<times> normalizer" where
  "fix_source_stain_matrix self img =
     (case get_stain_matrix self img of
        Inl e \<Rightarrow> (Inl e, self)
      | Inr m \<Rightarrow> (Inr (), self\<lparr>stain_matrix_source := Some m\<rparr>))"

definition repeat_stain_mat :: "batch \<Rightarrow> image \<Rightarrow> batch" where
  "repeat_stain_mat stain_mat img = concat (replicate (length img) stain_mat)"

definition transform :: "collab \<Rightarrow> normalizer \<Rightarrow> image \<Rightarrow> store \<Rightarrow> generator
    \<Rightarrow> (error + image) \<times> store \<times> generator" where
  "transform c self img st rng =
     (case (case stain_matrix_source self of
              None \<Rightarrow> get_stain_matrix self img
            | Some m \<Rightarrow> Inr m) of
        Inl e \<Rightarrow> (Inl e, st, rng)
      | Inr source \<Rightarrow>
          (let source = repeat_stain_mat source img
           in case get_concentrations c img source (1 / 100) (reconst_method self) rng of
                (Inl e, rng') \<Rightarrow> (Inl e, st, rng')
              | (Inr conc, rng') \<Rightarrow>
                  (let (source_concentration, st) = alloc st conc;
                       c_transposed_srd = transpose_trailing source_concentration;
                       maxC = percentile c (rd st c_transposed_srd) 99 1
                   in case maxC_target self of
                        None \<Rightarrow> (Inl (AttributeError ''maxC_target''), st, rng')
                      | Some maxC_t \<Rightarrow>
                          (let c_scale = unsqueeze_last (div_broadcast maxC_t maxC);
                               st = imul st source_concentration c_scale
                           in case stain_matrix_target self of
                                None \<Rightarrow> (Inl (AttributeError ''stain_matrix_target''), st, rng')
                              | Some smt \<Rightarrow>
                                  (let out = map (map (map (\<lambda>v. exp (- 1 * v))))
                                               (batch_matmul (rd st c_transposed_srd) smt);
                                       out = map mT out
                                   in (map_sum id (clamp 0 1) (reshape4 out (shape4 img)),
                                       st, rng'))))))"

text \<open>
  Steps 4 to 6 of the transformation as the specification words them, on the source
  concentrations \<open>conc\<close>, the source scale \<open>maxC\<close>, and the fitted target scale and stain
  matrix.
\<close>

definition spec_rescale :: "mat \<Rightarrow> mat \<Rightarrow> batch \<Rightarrow> batch" where
  "spec_rescale target_scale source_scale conc =
     map2 (\<lambda>C factor. map2 (\<lambda>row f. map (\<lambda>v. v * f) row) C factor)
       conc (div_broadcast target_scale source_scale)"

definition spec_reconstruct :: "batch \<Rightarrow> batch \<Rightarrow> nat \<times> nat \<times> nat \<times> nat \<Rightarrow> error + image" where
  "spec_reconstruct conc target_stain_matrix shp =
     map_sum id (clamp 0 1)
       (reshape4 (map mT (map (map (map (\<lambda>v. exp (- v))))
                            (batch_matmul (map mT conc) target_stain_matrix))) shp)"

text \<open>The source's 99th-percentile scale, as \<open>transform\<close> computes it.\<close>

definition source_scale :: "collab \<Rightarrow> normalizer \<Rightarrow> image \<Rightarrow> generator \<Rightarrow> mat" where
  "source_scale c self img rng =
     (case (case stain_matrix_source self of
              None \<Rightarrow> get_stain_matrix self img
            | Some m \<Rightarrow> Inr m) of
        Inl e \<Rightarrow> []
      | Inr source \<Rightarrow>
          (case get_concentrations c img (repeat_stain_mat source img) (1 / 100)
                  (reconst_method self) rng of
             (Inl e, rng') \<Rightarrow> []
           | (Inr conc, rng') \<Rightarrow> percentile c (map mT conc) 99 1))"



section \<open>The normalizer on the machine's special values\<close>




















section \<open>Concrete collaborators\<close>

text \<open>
  A concrete instance of the parameters, on which the model is evaluated: a code
  initialiser that returns zeros, solvers that return the code they start from (the
  projection of the observations on the atoms when none is given), the machine epsilon
  of \<open>float32\<close>, the negative logarithm as optical density, and the largest entry along
  the pixel axis as percentile (which the 99th percentile is for up to 51 pixels). The
  stain extractor of the concrete normalizer returns one fixed pair of stains.
\<close>

definition zeros :: "nat \<Rightarrow> nat \<Rightarrow> mat" where
  "zeros n m = replicate n (replicate m 0)"

definition start_code :: "mat \<Rightarrow> mat \<Rightarrow> code_init \<Rightarrow> mat" where
  "start_code x weight z0 = (case z0 of Tensor z \<Rightarrow> z | _ \<Rightarrow> matmul x weight)"

definition col_max :: "mat \<Rightarrow> vec" where
  "col_max M = map (\<lambda>j. fold max (col M j) (hd (col M j))) [0..<size1 M]"

definition toy :: collab where
  "toy = \<lparr>initialize_code = (\<lambda>x weight alpha mode g. (Inr (zeros (size0 x) (size1 weight)), g)),
          coord_descent = (\<lambda>x weight z0 alpha kw. Inr (start_code x weight z0)),
          ista = (\<lambda>x z0 weight alpha g kw. (Inr (start_code x weight z0), g)),
          get_eps = (\<lambda>d. 1 / 2 ^ 23),
          orthogonal_init = (\<lambda>w. w),
          rgb2od = map (map (map (map (\<lambda>v. - ln v)))),
          percentile = (\<lambda>t q d. map col_max t)\<rparr>"

definition draws :: "real \<Rightarrow> generator" where
  "draws v = (\<lambda>i. v)"

definition toy_normalizer :: normalizer where
  "toy_normalizer = \<lparr>reconst_method = ''ista'',
          get_stain_matrix = (\<lambda>img. Inr [[[1, 0, 0], [0, 1, 0]]]),
          stain_matrix_target = None, target_concentrations = None, maxC_target = None,
          stain_matrix_source = None\<rparr>"

definition toy_target :: image where
  "toy_target = [[[[exp (- 1), 1]], [[1, exp (- (1 / 2))]], [[1, 1]]]]"

definition toy_source :: image where
  "toy_source = [[[[exp (- (1 / 2)), 1]], [[1, exp (- (1 / 2))]], [[1, 1]]]]"

definition toy_blue :: image where
  "toy_blue = [[[[exp (- 1), 1]], [[1, exp (- (1 / 2))]], [[exp (- 1), 1]]]]"

definition toy_fitted :: normalizer where
  "toy_fitted = fst (snd (fit toy toy_normalizer toy_target (1 / 100) (draws 0)))"



section \<open>Properties of the loss\<close>

lemma sum_sq_nonneg: "0 \<le> sum_list (map (\<lambda>a::real. a\<^sup>2) v)"
  by (induction v) auto

lemma vnorm_sq: "(vnorm v)\<^sup>2 = sum_list (map (\<lambda>a. a\<^sup>2) v)"
  by (simp add: vnorm_def sum_sq_nonneg)

lemma vnorm_nonneg: "0 \<le> vnorm v"
  by (simp add: vnorm_def sum_sq_nonneg)

lemma norm_p2_sq: "(norm_p2 M)\<^sup>2 = sum_list (map (\<lambda>r. (vnorm r)\<^sup>2) M)"
  unfolding norm_p2_def vnorm_sq by (induction M) auto

text \<open>
  The norm is taken over the whole residual matrix, so the loss is a tensor without
  dimension before \<open>.mean()\<close>, which leaves it as it is: the data term is the sum over the
  samples, not their mean.
\<close>

lemma lasso_loss_is_sum:
  "lasso_loss X Z W alpha =
     sum_list (map (\<lambda>r. (1 / 2) * (vnorm r)\<^sup>2) (msub X (matmul Z (mT W))))
     + (1 / 10) * norm_p1 W + (1 / 10 ^ 9) * (norm_p2 W)\<^sup>2"
  by (simp add: lasso_loss_def Let_def mean0_def norm_p2_sq sum_list_const_mult
      flip: sum_list_const_mult)

text \<open>
  C2. The claim: \<open>lasso_loss\<close> is the mean over the samples of half the squared residual
  norm, plus \<open>0.1 * ||W||_1 + 1e-9 * ||W||_2^2\<close>. On two samples with residuals \<open>2\<close> and \<open>0\<close>
  the code returns \<open>2 + 0.1 + 1e-9\<close> (the sum), where the mean over the samples gives
  \<open>1 + 0.1 + 1e-9\<close>.
\<close>

theorem lasso_loss_two_samples:
  "lasso_loss [[3], [1]] [[1], [1]] [[1]] 1 = 21 / 10 + 1 / 10 ^ 9
   \<and> spec_lasso_loss [[3], [1]] [[1], [1]] [[1]] 1 = 11 / 10 + 1 / 10 ^ 9"
  by (simp add: lasso_loss_def spec_lasso_loss_def mean_over_samples_def mean0_def norm_p2_def
      norm_p1_def vnorm_def msub_def matmul_def vecmat_def mT_def size1_def col_def dot_def)

section \<open>Properties of sparse coding\<close>

text \<open>
  C3, as amended. For an algorithm other than \<open>cd\<close> and \<open>ista\<close>, \<open>sparse_encode\<close> raises
  and runs no solver. With a warm start of the right shape it raises the \<open>ValueError\<close> that
  names the algorithm at once, with no other effect, and with a warm start of another
  shape the shape assertion fails instead. With no warm start the code is initialised
  first, and the \<open>ValueError\<close> is raised once the initialisation has returned.
\<close>

theorem sparse_encode_invalid_algorithm:
  assumes "algorithm \<noteq> ''cd''" and "algorithm \<noteq> ''ista''"
  shows "(\<exists>e ev g. sparse_encode c x weight alpha z0 algorithm init rng kw = (Inl e, ev, g)
            \<and> CoordDescent \<notin> set ev \<and> Ista \<notin> set ev
            \<and> (z0 = None \<longrightarrow> (\<exists>mode. InitializeCode mode \<in> set ev)
                  \<and> ((\<exists>z. fst (initialize_code c x weight alpha
                               (case init of None \<Rightarrow> ''zero'' | Some m \<Rightarrow> m) rng) = Inr z)
                       \<longrightarrow> e = ValueError (invalid_algorithm algorithm))))
       \<and> (\<forall>z. z0 = Some z \<longrightarrow>
             sparse_encode c x weight alpha z0 algorithm init rng kw =
               (if shape z = (size0 x, size1 weight)
                then (Inl (ValueError (invalid_algorithm algorithm)), [], rng)
                else (Inl AssertionError, [], rng)))"
  using assms
  by (cases z0; cases init;
      cases "initialize_code c x weight alpha ''zero'' rng";
      cases "initialize_code c x weight alpha (the init) rng")
     (auto simp: sparse_encode_def initial_code_def init_defaults_def Let_def
           split: prod.splits sum.splits option.splits)

text \<open>At \<open>omp\<close>, with a warm start of the right shape: the error, and no effect.\<close>

theorem sparse_encode_invalid_algorithm_witness:
  "''omp'' \<noteq> ''cd'' \<and> ''omp'' \<noteq> ''ista''
   \<and> sparse_encode toy [[1]] [[1]] (1 / 10) (Some [[0]]) ''omp'' None (draws 0) [] =
       (Inl (ValueError (invalid_algorithm ''omp'')), [], draws 0)"
  using sparse_encode_invalid_algorithm
          [of "''omp''" toy "[[1]]" "[[1]]" "1 / 10" "Some [[0]]" None "draws 0" "[]"]
  by (simp add: shape_def size0_def size1_def)

text \<open>
  C3, as claimed, fails: with no warm start, \<open>iter-ridge\<close> and \<open>init = 'zero'\<close>, the call
  warns and initialises the code before it raises.
\<close>

theorem sparse_encode_partial_work:
  "sparse_encode toy [[1]] [[1]] (1 / 10) None ''iter-ridge'' (Some ''zero'') (draws 0) [] =
     (Inl (ValueError (invalid_algorithm ''iter-ridge'')),
      [Warning ''Iterative Ridge should not be zero-initialized.'', InitializeCode ''zero''],
      draws 0)"
  by (simp add: sparse_encode_def initial_code_def toy_def Let_def)

text \<open>
  C10. With a warm start \<open>z\<close> of the shape \<open>(n_samples, n_components)\<close>, the outcome of
  \<open>sparse_encode\<close> (result, effects and generator) is the same for any two values of
  \<open>init\<close>, and its only effect is the call of the solver: no initialisation, no warning.
\<close>

theorem sparse_encode_warm_start_ignores_init:
  assumes "shape z = (size0 x, size1 weight)"
  shows "sparse_encode c x weight alpha (Some z) algorithm init rng kw =
           sparse_encode c x weight alpha (Some z) algorithm init' rng kw
         \<and> (\<forall>e \<in> set (fst (snd (sparse_encode c x weight alpha (Some z) algorithm init rng kw))).
               e = CoordDescent \<or> e = Ista)"
  using assms
  by (auto simp: sparse_encode_def initial_code_def Let_def split: prod.splits sum.splits)

theorem sparse_encode_warm_start_ignores_init_witness:
  "shape [[5, 7]] = (size0 [[1, 2, 3]], size1 [[1, 0], [0, 1], [1, 1]])
   \<and> sparse_encode toy [[1, 2, 3]] [[1, 0], [0, 1], [1, 1]] (1 / 10) (Some [[5, 7]]) ''iter-ridge''
         (Some ''zero'') (draws 0) []
       = sparse_encode toy [[1, 2, 3]] [[1, 0], [0, 1], [1, 1]] (1 / 10) (Some [[5, 7]]) ''iter-ridge''
         None (draws 0) []
   \<and> sparse_encode toy [[1, 2, 3]] [[1, 0], [0, 1], [1, 1]] (1 / 10) (Some [[5, 7]]) ''ista''
         (Some ''ridge'') (draws 0) []
       = sparse_encode toy [[1, 2, 3]] [[1, 0], [0, 1], [1, 1]] (1 / 10) (Some [[5, 7]]) ''ista''
         None (draws 0) []
   \<and> fst (snd (sparse_encode toy [[1, 2, 3]] [[1, 0], [0, 1], [1, 1]] (1 / 10)
                 (Some [[5, 7]]) ''ista'' (Some ''ridge'') (draws 0) [])) = [Ista]"
  using sparse_encode_warm_start_ignores_init
          [of "[[5, 7]]" "[[1, 2, 3]]" "[[1, 0], [0, 1], [1, 1]]" toy "1 / 10" "''iter-ridge''"
              "Some ''zero''" "draws 0" "[]" None]
        sparse_encode_warm_start_ignores_init
          [of "[[5, 7]]" "[[1, 2, 3]]" "[[1, 0], [0, 1], [1, 1]]" toy "1 / 10" "''ista''"
              "Some ''ridge''" "draws 0" "[]" None]
  by (simp add: shape_def size0_def size1_def sparse_encode_def initial_code_def toy_def)

section \<open>Properties of the dictionary update\<close>

lemmas tensor_defs = madd_def msub_def outer_def col_def set_col_def vecmat_def matmul_def mT_def
  size0_def size1_def dot_def clamp_min_def vnorm_def matvec_def

text \<open>
  In the reseeding branch the fresh draw is clamped at zero before its absolute value is
  taken: the absolute value changes nothing, and a draw with no positive entry is left as
  the zero vector.
\<close>

lemma abs_after_clamp: "map abs (clamp_min 0 v) = clamp_min 0 v"
  by (simp add: clamp_min_def)

lemma clamp_no_positive: "\<forall>a \<in> set v. a \<le> 0 \<Longrightarrow> clamp_min 0 v = map (\<lambda>_. 0) v"
  by (induction v) (auto simp: clamp_min_def)

text \<open>
  C4. The claim: after \<open>update_dict\<close> with \<open>positive=True\<close> every atom has norm 1 and no
  atom is left near zero. Here the second atom is degenerate (its code column is zero) and
  the generator hands out negative draws: the reseeded atom is clamped to the zero vector
  before the absolute value is taken, and the returned dictionary has a zero column.
\<close>

theorem update_dict_zero_atom:
  "update_dict toy [[1, 0], [0, 1]] [[1, 0]] [[1, 0]] True eps_default (draws (- 1)) =
     ([[1, 0], [0, 0]], [[1, 0]], draws (- 1))
   \<and> vnorm (col [[1, 0], [0, 0]] 1) = 0"
  by (simp add: update_dict_def update_atom_def Let_def tensor_defs normal_fill_def toy_def
      eps_default_def draws_def upt_rec)

text \<open>
  C5. The claim: when code column \<open>k\<close> is zero, atom \<open>k\<close> is reseeded to a non-zero vector
  of unit norm and the code column is zero. With three features, two atoms, the second
  code column zero and negative draws, the second atom comes back as the zero vector (the
  code column is zero, and nothing is raised).
\<close>

theorem update_dict_reseed_all_negative:
  "update_dict toy [[1, 0], [0, 1], [0, 0]] [[1, 0, 0], [2, 0, 0]] [[1, 0], [0, 0]] True
       eps_default (draws (- 1)) =
     ([[1, 0], [0, 0], [0, 0]], [[1, 0], [0, 0]], draws (- 1))
   \<and> col [[1, 0], [0, 0], [0, 0]] 1 = [0, 0, 0]
   \<and> col [[1, 0], [0, 0 :: real]] 1 = [0, 0]"
  by (simp add: update_dict_def update_atom_def Let_def tensor_defs normal_fill_def toy_def
      eps_default_def draws_def upt_rec)

section \<open>Shapes\<close>

lemma map2_map_right: "map2 f xs (map g ys) = map2 (\<lambda>x y. f x (g y)) xs ys"
  by (induction xs ys rule: list_induct2') auto

lemma size1_wf: "wf_mat n m M \<Longrightarrow> 0 < n \<Longrightarrow> size1 M = m"
  by (cases M) (auto simp: wf_mat_def size1_def)

lemma wf_mT: "wf_mat n m M \<Longrightarrow> 0 < n \<Longrightarrow> wf_mat m n (mT M)"
  using size1_wf[of n m M] by (auto simp: wf_mat_def mT_def col_def list_all_iff)

lemma wf_matmul: "length A = p \<Longrightarrow> wf_mat s ch B \<Longrightarrow> 0 < s \<Longrightarrow> wf_mat p ch (matmul A B)"
  by (simp add: wf_mat_def matmul_def vecmat_def list_all_iff size1_wf[unfolded wf_mat_def])

lemma wf_map_map: "wf_mat n m M \<Longrightarrow> wf_mat n m (map (map f) M)"
  by (simp add: wf_mat_def list_all_iff)



lemma length_concat_wf: "wf_mat n m M \<Longrightarrow> length (concat M) = n * m"
  unfolding wf_mat_def by (induction M arbitrary: n) (auto simp: length_concat)


lemma index_bound:
  assumes "i < b" "j < ch" "k < (h::nat)"
  shows "((i * ch + j) * h + k) * w + w \<le> b * ch * h * w"
proof -
  have "i * ch + j < Suc i * ch" using assms(2) by simp
  also have "\<dots> \<le> b * ch" using assms(1) by (intro mult_le_mono1) simp
  finally have 1: "Suc (i * ch + j) \<le> b * ch" by simp
  have "(i * ch + j) * h + k < Suc (i * ch + j) * h" using assms(3) by simp
  also have "\<dots> \<le> b * ch * h" using 1 by (intro mult_le_mono1)
  finally have "Suc ((i * ch + j) * h + k) \<le> b * ch * h" by simp
  then have "Suc ((i * ch + j) * h + k) * w \<le> b * ch * h * w" by (intro mult_le_mono1)
  then show ?thesis by simp
qed

lemma reshape4_wf:
  assumes "length (concat (concat t)) = b * ch * h * w"
  shows "\<exists>out. reshape4 t (b, ch, h, w) = Inr out \<and> wf_image b ch h w out"
proof -
  let ?flat = "concat (concat t)"
  have "length (take w (drop (((i * ch + j) * h + k) * w) ?flat)) = w"
    if "i < b" "j < ch" "k < h" for i j k
    using index_bound[OF that, of w] assms by simp
  then show ?thesis using assms
    by (simp add: reshape4_def Let_def wf_image_def list_all_iff)
qed

lemma shape4_wf:
  "wf_image b ch h w img \<Longrightarrow> 0 < b \<Longrightarrow> 0 < ch \<Longrightarrow> 0 < h \<Longrightarrow> shape4 img = (b, ch, h, w)"
  by (cases img; cases "hd img"; cases "hd (hd img)")
     (auto simp: wf_image_def shape4_def size1_def split: list.splits)

lemma clamp_wf: "wf_image b ch h w out \<Longrightarrow> wf_image b ch h w (clamp lo hi out)"
  by (auto simp: wf_image_def clamp_def list_all_iff)


section \<open>Properties of the normalizer\<close>

text \<open>
  The in-place rescaling of the source concentrations is seen through the transposed
  view that was taken before it.
\<close>

lemma imul_fresh:
  "rd (imul (st @ [conc]) (View (length st) False) (unsqueeze_last (div_broadcast A B)))
      (View (length st) True) = map mT (spec_rescale A B conc)"
  unfolding imul_def rd_def wr_def spec_rescale_def unsqueeze_last_def
  by (simp add: map2_map_right)

lemma transform_eq:
  assumes "(case stain_matrix_source self of None \<Rightarrow> get_stain_matrix self img | Some m \<Rightarrow> Inr m)
             = Inr source"
      and "get_concentrations c img (repeat_stain_mat source img) (1 / 100) (reconst_method self) rng
             = (Inr conc, rng')"
      and "maxC_target self = Some target_scale"
      and "stain_matrix_target self = Some smt"
  shows "fst (transform c self img st rng) =
           spec_reconstruct (spec_rescale target_scale (percentile c (map mT conc) 99 1) conc)
             smt (shape4 img)"
  using assms
  by (simp add: transform_def Let_def alloc_def transpose_trailing_def imul_fresh spec_reconstruct_def)
    (simp add: rd_def)







text \<open>The concrete normalizer, fitted to the concrete target.\<close>

lemmas toy_eval = toy_def toy_normalizer_def toy_target_def toy_source_def get_concentrations_def
  get_concentrations_helper_def start_code_def col_max_def tensor_defs Let_def upt_rec

lemma toy_target_conc:
  "get_concentrations toy toy_target [[[1, 0, 0], [0, 1, 0]]] (1 / 100) ''ista'' (draws 0)
     = (Inr [[[1, 0], [0, 1 / 2]]], draws 0)"
  by (simp add: toy_eval)

lemma toy_fitted_eq:
  "toy_fitted = toy_normalizer\<lparr>stain_matrix_target := Some [[[1, 0, 0], [0, 1, 0]]],
       target_concentrations := Some [[[1, 0], [0, 1 / 2]]],
       maxC_target := Some [[1, 1 / 2]]\<rparr>"
  unfolding toy_fitted_def fit_def
  by (simp add: toy_target_conc[unfolded toy_normalizer_def] toy_normalizer_def)
     (simp add: toy_eval)

lemma toy_source_conc:
  "get_concentrations toy toy_source (repeat_stain_mat [[[1, 0, 0], [0, 1, 0]]] toy_source)
       (1 / 100) ''ista'' (draws 0)
     = (Inr [[[1 / 2, 0], [0, 1 / 2]]], draws 0)"
  by (simp add: toy_eval repeat_stain_mat_def)

lemma toy_source_scale: "percentile toy (map mT [[[1 / 2, 0], [0, 1 / 2]]]) 99 1 = [[1 / 2, 1 / 2]]"
  by (simp add: toy_eval)

lemma toy_reconstruct:
  "spec_reconstruct (spec_rescale [[1, 1 / 2]] [[1 / 2, 1 / 2]] [[[1 / 2, 0], [0, 1 / 2]]])
      [[[1, 0, 0], [0, 1, 0]]] (shape4 toy_source) = Inr toy_target"
  by (simp add: spec_reconstruct_def spec_rescale_def div_broadcast_def batch_matmul_def
      reshape4_def shape4_def clamp_def toy_eval)

text \<open>
  C1. On a fitted normalizer, the image that \<open>transform\<close> returns is the reconstruction
  of the rescaled source concentrations: each concentration is multiplied, per image and
  stain channel, by the target scale over the source scale, the product of the rescaled
  concentrations (pixels first) with the target stain matrix is negated and exponentiated,
  laid out as the input and clamped.
\<close>

theorem transform_rescales:
  assumes "(case stain_matrix_source self of None \<Rightarrow> get_stain_matrix self img | Some m \<Rightarrow> Inr m)
             = Inr source"
      and "get_concentrations c img (repeat_stain_mat source img) (1 / 100) (reconst_method self) rng
             = (Inr conc, rng')"
      and "maxC_target self = Some target_scale"
      and "stain_matrix_target self = Some smt"
  shows "fst (transform c self img st rng) =
           spec_reconstruct (spec_rescale target_scale (percentile c (map mT conc) 99 1) conc)
             smt (shape4 img)"
  using assms by (rule transform_eq)

text \<open>
  On the concrete source the factor is \<open>(2, 1)\<close>, and the source is carried to the target
  it was fitted to.
\<close>

theorem transform_rescales_witness:
  "(case stain_matrix_source toy_fitted of None \<Rightarrow> get_stain_matrix toy_fitted toy_source
    | Some m \<Rightarrow> Inr m) = Inr [[[1, 0, 0], [0, 1, 0]]]
   \<and> get_concentrations toy toy_source (repeat_stain_mat [[[1, 0, 0], [0, 1, 0]]] toy_source)
        (1 / 100) (reconst_method toy_fitted) (draws 0) = (Inr [[[1 / 2, 0], [0, 1 / 2]]], draws 0)
   \<and> maxC_target toy_fitted = Some [[1, 1 / 2]]
   \<and> stain_matrix_target toy_fitted = Some [[[1, 0, 0], [0, 1, 0]]]
   \<and> spec_rescale [[1, 1 / 2]] [[1 / 2, 1 / 2]] [[[1 / 2, 0], [0, 1 / 2]]] = [[[1, 0], [0, 1 / 2]]]
   \<and> fst (transform toy toy_fitted toy_source [] (draws 0)) = Inr toy_target"
proof -
  have 1: "(case stain_matrix_source toy_fitted of None \<Rightarrow> get_stain_matrix toy_fitted toy_source
    | Some m \<Rightarrow> Inr m) = Inr [[[1, 0, 0], [0, 1, 0]]]"
    by (simp add: toy_fitted_eq toy_normalizer_def)
  have 2: "get_concentrations toy toy_source (repeat_stain_mat [[[1, 0, 0], [0, 1, 0]]] toy_source)
        (1 / 100) (reconst_method toy_fitted) (draws 0) = (Inr [[[1 / 2, 0], [0, 1 / 2]]], draws 0)"
    using toy_source_conc by (simp add: toy_fitted_eq toy_normalizer_def)
  have 3: "maxC_target toy_fitted = Some [[1, 1 / 2]]" by (simp add: toy_fitted_eq)
  have 4: "stain_matrix_target toy_fitted = Some [[[1, 0, 0], [0, 1, 0]]]" by (simp add: toy_fitted_eq)
  have 5: "spec_rescale [[1, 1 / 2]] [[1 / 2, 1 / 2]] [[[1 / 2, 0], [0, 1 / 2]]] = [[[1, 0], [0, 1 / 2]]]"
    by (simp add: spec_rescale_def div_broadcast_def)
  have "fst (transform toy toy_fitted toy_source [] (draws 0)) = Inr toy_target"
    using transform_rescales[OF 1 2 3 4, of "[]"] unfolding toy_source_scale toy_reconstruct .
  then show ?thesis using 1 2 3 4 5 by simp
qed

subsection \<open>The special values\<close>
































section \<open>Properties of the ridge update\<close>

lemma dot_Cons [simp]: "dot (a # u) (b # v) = a * b + dot u v"
  by (simp add: dot_def)

lemma dot_Nil [simp]: "dot [] v = 0" "dot u [] = 0"
  by (simp_all add: dot_def)

lemma dot_commute: "dot u v = dot v u"
  unfolding dot_def by (induction u v rule: list_induct2') (auto simp: mult.commute)

lemma dot_map_affine:
  "length u = length rows \<Longrightarrow>
   dot u (map (\<lambda>q. f q * t + g q) rows) = t * dot u (map f rows) + dot u (map g rows)"
  by (induction u rows rule: list_induct2) (auto simp: algebra_simps)

lemma dot_schur_row:
  "length v = length c \<Longrightarrow> length c = length u \<Longrightarrow>
   dot (map2 (\<lambda>vj b. b - k * vj) v c) u = dot c u - k * dot v u"
  by (induction v c u rule: list_induct3) (auto simp: algebra_simps)

lemma cholesky_step:
  "cholesky ((a # r) # rows) =
     (if a \<le> 0 then Inl LinAlgError
      else case cholesky (schur (sqrt a) rows) of
             Inl e \<Rightarrow> Inl e
           | Inr L' \<Rightarrow> Inr ((sqrt a # map (\<lambda>_. 0) rows) # map2 (#) (map (\<lambda>q. hd q / sqrt a) rows) L'))"
  by (simp add: schur_def Let_def)

lemma length_schur [simp]: "length (schur l rows) = length rows"
  by (simp add: schur_def Let_def)

lemma matvec_schur:
  assumes "list_all (\<lambda>q. length q = Suc (length rows)) rows" "length u = length rows"
  shows "matvec (schur l rows) u =
         map (\<lambda>q. dot (tl q) u - (hd q / l) * dot (map (\<lambda>q. hd q / l) rows) u) rows"
proof -
  let ?v = "map (\<lambda>q. hd q / l) rows"
  have "dot (map2 (\<lambda>vj b. b - (hd q / l) * vj) ?v (tl q)) u
          = dot (tl q) u - (hd q / l) * dot ?v u" if "q \<in> set rows" for q
    using that assms by (intro dot_schur_row) (auto simp: list_all_iff)
  then show ?thesis
    by (simp add: schur_def Let_def matvec_def zip_map1 zip_same_conv_map)
qed

lemma dot_row:
  "length q = Suc n \<Longrightarrow> dot q (t # u) = hd q * t + dot (tl q) u"
  by (cases q) auto

lemma matvec_Cons_rows:
  assumes "list_all (\<lambda>q. length q = Suc (length rows)) rows"
  shows "matvec rows (t # u) = map (\<lambda>q. hd q * t + dot (tl q) u) rows"
  using assms by (auto simp: matvec_def list_all_iff dot_row)

lemma quad_Cons:
  assumes "symmetric ((a # r) # rows)" "length u = length rows"
  shows "dot (t # u) (matvec ((a # r) # rows) (t # u)) =
           a * t\<^sup>2 + 2 * t * dot r u + dot u (matvec (map tl rows) u)"
proof -
  have rows: "list_all (\<lambda>q. length q = Suc (length rows)) rows" and r: "r = map hd rows"
    using assms(1) by simp_all
  have "matvec ((a # r) # rows) (t # u) = (a * t + dot r u) # map (\<lambda>q. hd q * t + dot (tl q) u) rows"
    using matvec_Cons_rows[OF rows] by (simp add: matvec_def)
  moreover have "dot u (map (\<lambda>q. hd q * t + dot (tl q) u) rows)
                   = t * dot u (map hd rows) + dot u (map (\<lambda>q. dot (tl q) u) rows)"
    using assms(2) by (rule dot_map_affine)
  moreover have "matvec (map tl rows) u = map (\<lambda>q. dot (tl q) u) rows"
    by (simp add: matvec_def comp_def)
  ultimately show ?thesis
    using r dot_commute[of u r] by (simp add: algebra_simps power2_eq_square)
qed

lemma quad_schur:
  assumes "list_all (\<lambda>q. length q = Suc (length rows)) rows" "length u = length rows"
  shows "dot u (matvec (schur l rows) u) =
           dot u (matvec (map tl rows) u) - (dot (map (\<lambda>q. hd q / l) rows) u)\<^sup>2"
proof -
  let ?D = "dot (map (\<lambda>q. hd q / l) rows) u"
  have "matvec (schur l rows) u = map (\<lambda>q. (hd q / l) * (- ?D) + dot (tl q) u) rows"
    using matvec_schur[OF assms] by simp
  moreover have "dot u (map (\<lambda>q. (hd q / l) * (- ?D) + dot (tl q) u) rows)
      = (- ?D) * dot u (map (\<lambda>q. hd q / l) rows) + dot u (map (\<lambda>q. dot (tl q) u) rows)"
    using assms(2) by (rule dot_map_affine)
  moreover have "matvec (map tl rows) u = map (\<lambda>q. dot (tl q) u) rows"
    by (simp add: matvec_def comp_def)
  ultimately show ?thesis
    using dot_commute[of u "map (\<lambda>q. hd q / l) rows"] by (simp add: power2_eq_square)
qed

lemma dot_map_scale: "dot (map (\<lambda>q. f q / l) rows) u = dot (map f rows) u / l"
proof (induction rows arbitrary: u)
  case Nil
  then show ?case by simp
next
  case (Cons a rows)
  then show ?case by (cases u) (simp_all add: add_divide_distrib)
qed

lemma map2_map_left: "map2 f (map g xs) ys = map2 (\<lambda>x y. f (g x) y) xs ys"
  by (induction xs ys rule: list_induct2') auto

lemma map2_same: "map2 f xs xs = map (\<lambda>x. f x x) xs"
  by (induction xs) auto

lemma symmetric_rank_one:
  "symmetric C \<Longrightarrow> length v = length C \<Longrightarrow>
   symmetric (map2 (\<lambda>vi c. map2 (\<lambda>vj b. b - vi * vj) v c) v C)"
proof (induction C arbitrary: v rule: symmetric.induct)
  case 1
  then show ?case by simp
next
  case (2 rows)
  then show ?case by simp
next
  case (3 a r rows)
  then obtain v0 v' where v: "v = v0 # v'" "length v' = length rows" by (cases v) auto
  have r: "r = map hd rows" and len: "list_all (\<lambda>q. length q = Suc (length rows)) rows"
    and sym: "symmetric (map tl rows)"
    using "3.prems"(1) by simp_all
  let ?rest = "map2 (\<lambda>vi c. map2 (\<lambda>vj b. b - vi * vj) (v0 # v') c) v' rows"
  have rest_eq: "?rest = map2 (\<lambda>vi c. (hd c - vi * v0) # map2 (\<lambda>vj b. b - vi * vj) v' (tl c)) v' rows"
  proof (rule map_cong[OF refl])
    fix p assume "p \<in> set (zip v' rows)"
    then have "snd p \<in> set rows" using set_zip_rightD[of "fst p" "snd p" v' rows] by simp
    then have "length (snd p) = Suc (length rows)" using len unfolding list_all_iff by blast
    then obtain b0 c' where "snd p = b0 # c'" by (cases "snd p") simp_all
    then show "(case p of (vi, c) \<Rightarrow> map2 (\<lambda>vj b. b - vi * vj) (v0 # v') c)
          = (case p of (vi, c) \<Rightarrow> (hd c - vi * v0) # map2 (\<lambda>vj b. b - vi * vj) v' (tl c))"
      by (cases p) simp
  qed
  have 1: "map2 (\<lambda>vj b. b - v0 * vj) v' r = map hd ?rest"
    unfolding rest_eq r by (simp add: map2_map_right comp_def case_prod_beta mult.commute)
  have 2: "list_all (\<lambda>q. length q = Suc (length ?rest)) ?rest"
    unfolding rest_eq using v(2) len
    by (auto simp: list_all_iff dest!: set_zip_rightD)
  have "map tl ?rest = map2 (\<lambda>vi c. map2 (\<lambda>vj b. b - vi * vj) v' c) v' (map tl rows)"
    unfolding rest_eq by (simp add: map2_map_right comp_def case_prod_beta)
  then have 3: "symmetric (map tl ?rest)"
    using "3.IH"[OF sym, of v'] v(2) by simp
  show ?case using 1 2 3 by (simp add: v)
qed

lemma symmetric_schur:
  assumes "symmetric ((a # r) # rows)"
  shows "symmetric (schur l rows)"
proof -
  have "symmetric (map tl rows)" using assms by simp
  then have "symmetric (map2 (\<lambda>vi c. map2 (\<lambda>vj b. b - vi * vj) (map (\<lambda>q. hd q / l) rows) c)
                 (map (\<lambda>q. hd q / l) rows) (map tl rows))"
    by (rule symmetric_rank_one) simp
  then show ?thesis by (simp add: schur_def Let_def map2_map_right)
qed

lemma complete_square:
  fixes a t d :: real
  assumes a: "0 < a"
  shows "a * t\<^sup>2 + 2 * t * d + d\<^sup>2 / a = (sqrt a * t + d / sqrt a)\<^sup>2"
proof -
  have s: "sqrt a * sqrt a = a" using a by simp
  have nz: "sqrt a \<noteq> 0" using a by simp
  have "(sqrt a * t + d / sqrt a)\<^sup>2 = (sqrt a * sqrt a) * t\<^sup>2 + 2 * t * d * (sqrt a / sqrt a) + d\<^sup>2 / (sqrt a * sqrt a)"
    by (simp add: power2_eq_square algebra_simps)
  then show ?thesis using s nz by simp
qed

lemma minimiser:
  fixes a d :: real
  assumes a: "0 < a"
  shows "a * (- d / a)\<^sup>2 + 2 * (- d / a) * d = - d\<^sup>2 / a"
  using a by (simp add: power2_eq_square field_simps)

lemma dot_zero_right: "\<forall>x \<in> set u. x = 0 \<Longrightarrow> dot r u = 0"
  unfolding dot_def by (induction r u rule: list_induct2') auto

lemma dot_zero_left: "\<forall>x \<in> set u. x = 0 \<Longrightarrow> dot u r = 0"
  using dot_zero_right[of u r] by (simp add: dot_commute)

lemma pos_defD: "pos_def M \<Longrightarrow> length v = length M \<Longrightarrow> x \<in> set v \<Longrightarrow> x \<noteq> 0
    \<Longrightarrow> 0 < dot v (matvec M v)"
  unfolding pos_def_def by blast

lemma pos_defI: "(\<And>v x. length v = length M \<Longrightarrow> x \<in> set v \<Longrightarrow> x \<noteq> 0 \<Longrightarrow> 0 < dot v (matvec M v))
    \<Longrightarrow> pos_def M"
  unfolding pos_def_def by blast

lemma schur_quad:
  assumes "symmetric ((a # r) # rows)" "length u = length rows" "0 < a"
  shows "dot u (matvec (schur (sqrt a) rows) u) = dot u (matvec (map tl rows) u) - (dot r u)\<^sup>2 / a"
proof -
  have rows: "list_all (\<lambda>q. length q = Suc (length rows)) rows" and r: "r = map hd rows"
    using assms(1) by simp_all
  have "dot (map (\<lambda>q. hd q / sqrt a) rows) u = dot r u / sqrt a"
    unfolding r by (rule dot_map_scale)
  then have "(dot (map (\<lambda>q. hd q / sqrt a) rows) u)\<^sup>2 = (dot r u)\<^sup>2 / a"
    using assms(3) by (simp add: power_divide)
  then show ?thesis using quad_schur[OF rows assms(2), of "sqrt a"] by simp
qed

lemma pos_def_pivot:
  assumes "symmetric ((a # r) # rows)" "pos_def ((a # r) # rows)"
  shows "0 < a"
proof -
  let ?z = "replicate (length rows) (0::real)"
  have "0 < dot (1 # ?z) (matvec ((a # r) # rows) (1 # ?z))"
    using assms(2) by (rule pos_defD[where x = 1]) simp_all
  moreover have "dot (1 # ?z) (matvec ((a # r) # rows) (1 # ?z))
      = a * 1\<^sup>2 + 2 * 1 * dot r ?z + dot ?z (matvec (map tl rows) ?z)"
    using assms(1) by (rule quad_Cons) simp
  moreover have "dot r ?z = 0" by (rule dot_zero_right) simp
  moreover have "dot ?z (matvec (map tl rows) ?z) = 0" by (rule dot_zero_left) simp
  ultimately show ?thesis by simp
qed

lemma pos_def_schur:
  assumes sym: "symmetric ((a # r) # rows)" and pd: "pos_def ((a # r) # rows)"
  shows "pos_def (schur (sqrt a) rows)"
proof (rule pos_defI)
  fix u :: "real list" and x
  assume u: "length u = length (schur (sqrt a) rows)" "x \<in> set u" "x \<noteq> 0"
  have a: "0 < a" using sym pd by (rule pos_def_pivot)
  have len: "length u = length rows" using u(1) by simp
  let ?t = "- dot r u / a"
  have "0 < dot (?t # u) (matvec ((a # r) # rows) (?t # u))"
    using pd by (rule pos_defD[where x = x]) (simp_all add: u len)
  moreover have "dot (?t # u) (matvec ((a # r) # rows) (?t # u))
      = a * ?t\<^sup>2 + 2 * ?t * dot r u + dot u (matvec (map tl rows) u)"
    using sym len by (rule quad_Cons)
  ultimately have "0 < - (dot r u)\<^sup>2 / a + dot u (matvec (map tl rows) u)"
    unfolding minimiser[OF a] by simp
  then show "0 < dot u (matvec (schur (sqrt a) rows) u)"
    unfolding schur_quad[OF sym len a] by simp
qed

lemma pos_def_Cons_intro:
  assumes sym: "symmetric ((a # r) # rows)" and a: "0 < a"
    and pd: "pos_def (schur (sqrt a) rows)"
  shows "pos_def ((a # r) # rows)"
proof (rule pos_defI)
  fix v :: "real list" and x
  assume v: "length v = length ((a # r) # rows)" "x \<in> set v" "x \<noteq> 0"
  obtain t u where tu: "v = t # u" "length u = length rows" using v(1) by (cases v) auto
  have Q: "dot (t # u) (matvec ((a # r) # rows) (t # u))
      = a * t\<^sup>2 + 2 * t * dot r u + dot u (matvec (map tl rows) u)"
    using sym tu(2) by (rule quad_Cons)
  show "0 < dot v (matvec ((a # r) # rows) v)"
  proof (cases "\<forall>y \<in> set u. y = 0")
    case True
    then have "t \<noteq> 0" using v(2,3) tu(1) by auto
    then have "0 < a * t\<^sup>2" using a by simp
    moreover have "dot r u = 0" using True by (rule dot_zero_right)
    moreover have "dot u (matvec (map tl rows) u) = 0" using True by (rule dot_zero_left)
    ultimately show ?thesis unfolding tu(1) Q by simp
  next
    case False
    then obtain y where "y \<in> set u" "y \<noteq> 0" by blast
    then have "0 < dot u (matvec (schur (sqrt a) rows) u)"
      using pd tu(2) by (intro pos_defD[where x = y]) simp_all
    then have "(dot r u)\<^sup>2 / a < dot u (matvec (map tl rows) u)"
      unfolding schur_quad[OF sym tu(2) a] by simp
    moreover have "0 \<le> a * t\<^sup>2 + 2 * t * dot r u + (dot r u)\<^sup>2 / a"
      unfolding complete_square[OF a] by simp
    ultimately show ?thesis unfolding tu(1) Q by linarith
  qed
qed

lemma pos_def_Cons:
  assumes "symmetric ((a # r) # rows)"
  shows "pos_def ((a # r) # rows) \<longleftrightarrow> 0 < a \<and> pos_def (schur (sqrt a) rows)"
  using assms pos_def_pivot pos_def_schur pos_def_Cons_intro by blast

lemma pos_def_Nil: "pos_def []"
  by (simp add: pos_def_def)

lemma cholesky_pos_def:
  "symmetric M \<Longrightarrow>
   (pos_def M \<longrightarrow> (\<exists>L. cholesky M = Inr L \<and> length L = length M))
   \<and> (\<not> pos_def M \<longrightarrow> cholesky M = Inl LinAlgError)"
proof (induction M rule: cholesky.induct)
  case 1
  then show ?case by (simp add: pos_def_Nil)
next
  case (2 rows)
  then show ?case by simp
next
  case (3 a r rows)
  have pd: "pos_def ((a # r) # rows) \<longleftrightarrow> 0 < a \<and> pos_def (schur (sqrt a) rows)"
    using "3.prems" by (rule pos_def_Cons)
  show ?case
  proof (cases "a \<le> 0")
    case True
    then show ?thesis using pd by simp
  next
    case False
    have "symmetric (schur (sqrt a) rows)" using "3.prems" by (rule symmetric_schur)
    then have IH: "(pos_def (schur (sqrt a) rows) \<longrightarrow>
                      (\<exists>L. cholesky (schur (sqrt a) rows) = Inr L \<and> length L = length rows))
                 \<and> (\<not> pos_def (schur (sqrt a) rows) \<longrightarrow> cholesky (schur (sqrt a) rows) = Inl LinAlgError)"
      using "3.IH"[OF False refl refl refl] by (simp add: schur_def Let_def)
    show ?thesis
    proof (cases "pos_def (schur (sqrt a) rows)")
      case True
      then obtain L where "cholesky (schur (sqrt a) rows) = Inr L" "length L = length rows"
        using IH by blast
      then show ?thesis using False True pd by (simp add: cholesky_step del: cholesky.simps)
    next
      case F: False
      then have "cholesky (schur (sqrt a) rows) = Inl LinAlgError" using IH by blast
      then show ?thesis using False F pd by (simp add: cholesky_step del: cholesky.simps)
    qed
  qed
qed

lemma length_forward_subst [simp]: "length (forward_subst L b) = length L"
  by (induction L b rule: forward_subst.induct) (simp_all add: Let_def)

lemma length_backward_subst [simp]: "length (backward_subst L y) = length L"
  by (induction L y rule: backward_subst.induct) (simp_all add: Let_def)

lemma map_tl_Cons: "length v = length L \<Longrightarrow> map tl (map2 (#) v L) = L"
  by (induction v L rule: list_induct2) auto

lemma map_hd_Cons: "length v = length L \<Longrightarrow> map hd (map2 (#) v L) = v"
  by (induction v L rule: list_induct2) auto

lemma map2_hd_Cons:
  "length v = length L \<Longrightarrow> map2 (\<lambda>q bi. f (hd q) bi) (map2 (#) v L) bs = map2 f v bs"
proof (induction v L arbitrary: bs rule: list_induct2)
  case Nil
  then show ?case by simp
next
  case (Cons x xs y ys)
  then show ?case by (cases bs) simp_all
qed

lemma cholesky_Inr_length:
  "symmetric M \<Longrightarrow> cholesky M = Inr L \<Longrightarrow> length L = length M \<and> pos_def M"
  using cholesky_pos_def[of M] by (cases "pos_def M") auto

lemma solve_step:
  assumes "length v = length L'" 
  shows "backward_subst ((l # zs) # map2 (#) v L') (forward_subst ((l # zs) # map2 (#) v L') (b0 # bs))
       = (b0 / l - dot v (backward_subst L' (forward_subst L' (map2 (\<lambda>vi bi. bi - vi * (b0 / l)) v bs)))) / l
         # backward_subst L' (forward_subst L' (map2 (\<lambda>vi bi. bi - vi * (b0 / l)) v bs))"
proof -
  have 1: "map tl (map2 (#) v L') = L'" using assms by (rule map_tl_Cons)
  have 2: "map hd (map2 (#) v L') = v" using assms by (rule map_hd_Cons)
  have 3: "map2 (\<lambda>q bi. bi - hd q * (b0 / l)) (map2 (#) v L') bs = map2 (\<lambda>vi bi. bi - vi * (b0 / l)) v bs"
    using map2_hd_Cons[OF assms, of "\<lambda>h bi. bi - h * (b0 / l)" bs] .
  show ?thesis
    by (simp only: forward_subst.simps backward_subst.simps Let_def list.sel 1 2 3)
qed

lemma solve_rows:
  fixes l y0 D :: real
  assumes l: "0 < l"
    and eq: "map (\<lambda>q. dot (tl q) xs - (hd q / l) * D) rows = map2 (\<lambda>vi bi. bi - vi * y0) (map (\<lambda>q. hd q / l) rows) bs"
    and len: "length bs = length rows"
  shows "map (\<lambda>q. hd q * ((y0 - D) / l) + dot (tl q) xs) rows = bs"
proof (rule nth_equalityI)
  show "length (map (\<lambda>q. hd q * ((y0 - D) / l) + dot (tl q) xs) rows) = length bs"
    using len by simp
next
  fix i assume "i < length (map (\<lambda>q. hd q * ((y0 - D) / l) + dot (tl q) xs) rows)"
  then have i: "i < length rows" by simp
  have "map (\<lambda>q. dot (tl q) xs - (hd q / l) * D) rows ! i
          = map2 (\<lambda>vi bi. bi - vi * y0) (map (\<lambda>q. hd q / l) rows) bs ! i"
    using eq by simp
  then have "dot (tl (rows ! i)) xs - (hd (rows ! i) / l) * D = bs ! i - (hd (rows ! i) / l) * y0"
    using i len by simp
  then have "hd (rows ! i) * ((y0 - D) / l) + dot (tl (rows ! i)) xs = bs ! i"
    using l by (simp add: field_simps)
  then show "map (\<lambda>q. hd q * ((y0 - D) / l) + dot (tl q) xs) rows ! i = bs ! i"
    using i by simp
qed

lemma cholesky_solves:
  "symmetric M \<Longrightarrow> cholesky M = Inr L \<Longrightarrow> length b = length M
   \<Longrightarrow> matvec M (backward_subst L (forward_subst L b)) = b"
proof (induction M arbitrary: L b rule: cholesky.induct)
  case 1
  then show ?case by (simp add: matvec_def)
next
  case (2 rows)
  then show ?case by simp
next
  case (3 a r rows)
  let ?l = "sqrt a" and ?v = "map (\<lambda>q. hd q / sqrt a) rows" and ?S = "schur (sqrt a) rows"
  have a: "0 < a" using "3.prems"(2) by (simp add: cholesky_step del: cholesky.simps split: if_splits)
  then have l: "0 < ?l" by simp
  have ll: "?l * ?l = a" using a by simp
  obtain L' where L': "cholesky ?S = Inr L'" "L = (?l # map (\<lambda>_. 0) rows) # map2 (#) ?v L'"
    using "3.prems"(2) a by (auto simp: cholesky_step simp del: cholesky.simps split: sum.splits)
  have symS: "symmetric ?S" using "3.prems"(1) by (rule symmetric_schur)
  have lenL': "length L' = length rows" using cholesky_Inr_length[OF symS L'(1)] by simp
  have rows: "list_all (\<lambda>q. length q = Suc (length rows)) rows" and r: "r = map hd rows"
    using "3.prems"(1) by simp_all
  obtain b0 bs where b: "b = b0 # bs" "length bs = length rows" using "3.prems"(3) by (cases b) auto
  let ?y0 = "b0 / ?l"
  let ?bs' = "map2 (\<lambda>vi bi. bi - vi * ?y0) ?v bs"
  let ?xs = "backward_subst L' (forward_subst L' ?bs')"
  let ?x0 = "(?y0 - dot ?v ?xs) / ?l"
  have lenv: "length ?v = length L'" using lenL' by simp
  have sol: "backward_subst L (forward_subst L b) = ?x0 # ?xs"
    unfolding L'(2) b(1) using lenv by (rule solve_step)
  have lenxs: "length ?xs = length rows" using lenL' by simp
  have IH: "matvec ?S ?xs = ?bs'"
    using "3.IH"[of ?l ?v ?S L' ?bs'] a symS L'(1) b(2) by (simp add: schur_def Let_def)
  have D: "dot r ?xs = ?l * dot ?v ?xs"
    using l unfolding r dot_map_scale by simp
  have first: "dot (a # r) (?x0 # ?xs) = b0"
  proof -
    have "a * ?x0 = ?l * (?y0 - dot ?v ?xs)" using l ll by (simp add: field_simps)
    then show ?thesis using l D by (simp add: algebra_simps)
  qed
  have "map (\<lambda>q. dot (tl q) ?xs - (hd q / ?l) * dot ?v ?xs) rows = ?bs'"
    using matvec_schur[OF rows lenxs, of ?l] IH by simp
  then have rest: "map (\<lambda>q. hd q * ?x0 + dot (tl q) ?xs) rows = bs"
    using l b(2) by (intro solve_rows)
  have "matvec ((a # r) # rows) (?x0 # ?xs) = b0 # bs"
    using first rest matvec_Cons_rows[OF rows, of ?x0 ?xs] by (simp add: matvec_def)
  then show ?case unfolding b(1) sol[unfolded b(1)] .
qed

lemma gram_eq:
  "matmul (mT Z) Z = map (\<lambda>i. map (\<lambda>j. dot (col Z i) (col Z j)) [0..<size1 Z]) [0..<size1 Z]"
  by (simp add: matmul_def mT_def vecmat_def)

lemma update_map_upt:
  assumes "i < n"
  shows "(map g [0..<n])[i := g i + c] = map (\<lambda>j. g j + (if i = j then c else (0::real))) [0..<n]"
proof (rule nth_equalityI)
  show "length ((map g [0..<n])[i := g i + c]) = length (map (\<lambda>j. g j + (if i = j then c else 0)) [0..<n])"
    by simp
next
  fix k assume "k < length ((map g [0..<n])[i := g i + c])"
  then have k: "k < n" by simp
  show "(map g [0..<n])[i := g i + c] ! k = map (\<lambda>j. g j + (if i = j then c else 0)) [0..<n] ! k"
    using k assms by (cases "i = k") simp_all
qed

lemma add_diagonal_index:
  "add_diagonal (map (\<lambda>i. map (\<lambda>j. f i j) [0..<n]) [0..<n]) c
     = map (\<lambda>i. map (\<lambda>j. f i j + (if i = j then c else 0)) [0..<n]) [0..<n]"
proof -
  have "enumerate 0 (map (\<lambda>i. map (\<lambda>j. f i j) [0..<n]) [0..<n])
          = map (\<lambda>i. (i, map (\<lambda>j. f i j) [0..<n])) [0..<n]"
    unfolding enumerate_eq_zip by (simp add: zip_map2 zip_same_conv_map)
  then have "add_diagonal (map (\<lambda>i. map (\<lambda>j. f i j) [0..<n]) [0..<n]) c
          = map (\<lambda>i. (map (\<lambda>j. f i j) [0..<n])[i := map (\<lambda>j. f i j) [0..<n] ! i + c]) [0..<n]"
    unfolding add_diagonal_def by (simp add: comp_def)
  also have "\<dots> = map (\<lambda>i. map (\<lambda>j. f i j + (if i = j then c else 0)) [0..<n]) [0..<n]"
  proof (rule map_cong[OF refl])
    fix i assume "i \<in> set [0..<n]"
    then have i: "i < n" by simp
    then have "map (\<lambda>j. f i j) [0..<n] ! i = f i i" by simp
    then show "(map (\<lambda>j. f i j) [0..<n])[i := map (\<lambda>j. f i j) [0..<n] ! i + c]
                 = map (\<lambda>j. f i j + (if i = j then c else 0)) [0..<n]"
      using update_map_upt[OF i, of "\<lambda>j. f i j" c] by (simp only:)
  qed
  finally show ?thesis .
qed

lemma normal_matrix_eq:
  "normal_matrix Z lambd =
     map (\<lambda>i. map (\<lambda>j. dot (col Z i) (col Z j) + (if i = j then lambd * real (length Z) else 0))
                 [0..<size1 Z]) [0..<size1 Z]"
  unfolding normal_matrix_def gram_eq add_diagonal_index ..

lemma length_normal_matrix: "length (normal_matrix Z lambd) = size1 Z"
  unfolding normal_matrix_eq by simp

lemma upt_Suc_shift: "[0..<Suc n] = 0 # map Suc [0..<n]"
  by (metis map_Suc_upt upt_conv_Cons zero_less_Suc)

lemma symmetric_index:
  "(\<And>i j. f i j = (f j i :: real)) \<Longrightarrow> symmetric (map (\<lambda>i. map (\<lambda>j. f i j) [0..<n]) [0..<n])"
proof (induction n arbitrary: f)
  case 0
  then show ?case by simp
next
  case (Suc n)
  let ?rows = "map (\<lambda>i. f (Suc i) 0 # map (\<lambda>j. f (Suc i) (Suc j)) [0..<n]) [0..<n]"
  have eq: "map (\<lambda>i. map (\<lambda>j. f i j) [0..<Suc n]) [0..<Suc n]
              = (f 0 0 # map (\<lambda>j. f 0 (Suc j)) [0..<n]) # ?rows"
    by (simp only: upt_Suc_shift list.map map_map comp_def)
  have 1: "map (\<lambda>j. f 0 (Suc j)) [0..<n] = map hd ?rows"
    using Suc.prems[of 0] by (simp add: comp_def)
  have 2: "list_all (\<lambda>q. length q = Suc (length ?rows)) ?rows"
    by (simp add: list_all_iff)
  have "map tl ?rows = map (\<lambda>i. map (\<lambda>j. f (Suc i) (Suc j)) [0..<n]) [0..<n]"
    by (simp add: comp_def)
  moreover have "symmetric (map (\<lambda>i. map (\<lambda>j. f (Suc i) (Suc j)) [0..<n]) [0..<n])"
    using Suc.prems by (intro Suc.IH) simp
  ultimately have 3: "symmetric (map tl ?rows)" by (simp only:)
  show ?case unfolding eq using 1 2 3 by (simp only: symmetric.simps simp_thms)
qed

lemma symmetric_normal_matrix: "symmetric (normal_matrix Z lambd)"
  unfolding normal_matrix_eq by (rule symmetric_index) (auto simp: dot_commute)

lemma col_mT:
  assumes "wf_mat f k S" "j < f" "0 < f"
  shows "col (mT S) j = S ! j"
proof -
  have k: "size1 S = k" using assms(1,3) by (rule size1_wf)
  have len: "length (S ! j) = k" using assms(1,2) by (simp add: wf_mat_def list_all_length)
  have "col (mT S) j = map (\<lambda>i. S ! j ! i) [0..<k]"
    using assms(1,2) by (simp add: col_def mT_def k wf_mat_def)
  then show ?thesis using len map_nth[of "S ! j"] by simp
qed

lemma matmul_cols:
  assumes "wf_mat k f B" "length M = k" "size1 V = f"
    and "\<And>j. j < f \<Longrightarrow> matvec M (col V j) = col B j"
  shows "matmul M V = B"
proof (rule nth_equalityI)
  show "length (matmul M V) = length B" using assms(1,2) by (simp add: matmul_def wf_mat_def)
next
  fix i assume "i < length (matmul M V)"
  then have i: "i < k" using assms(2) by (simp add: matmul_def)
  have lenB: "length (B ! i) = f" using assms(1) i by (simp add: wf_mat_def list_all_length)
  show "matmul M V ! i = B ! i"
  proof (rule nth_equalityI)
    show "length (matmul M V ! i) = length (B ! i)"
      using i assms(2,3) lenB by (simp add: matmul_def vecmat_def)
  next
    fix j assume "j < length (matmul M V ! i)"
    then have j: "j < f" using i assms(2,3) by (simp add: matmul_def vecmat_def)
    have "matvec M (col V j) ! i = col B j ! i" using assms(4)[OF j] by simp
    then have "dot (M ! i) (col V j) = B ! i ! j"
      using i assms(1,2) by (simp add: matvec_def col_def wf_mat_def)
    then show "matmul M V ! i ! j = B ! i ! j"
      using i j assms(2,3) by (simp add: matmul_def vecmat_def)
  qed
qed

lemma update_dict_ridge_eq:
  assumes "wf_mat n f x" "wf_mat n k code"
  shows "update_dict_ridge x code lambd =
     (case cholesky (normal_matrix code lambd) of
        Inl e \<Rightarrow> Inl e
      | Inr L \<Rightarrow> Inr (mT (cholesky_solve (matmul (mT code) x) L)))"
  using assms by (simp add: update_dict_ridge_def normal_matrix_def Let_def size0_def wf_mat_def)

lemma ridge_update_cases:
  assumes "wf_mat n f x" and "wf_mat n k code" and "0 < n" and "0 < f" and "0 < k"
  shows "(pos_def (normal_matrix code lambd) \<longrightarrow>
            (\<exists>V. update_dict_ridge x code lambd = Inr (mT V) \<and> wf_mat k f V
                 \<and> matmul (normal_matrix code lambd) V = matmul (mT code) x))
       \<and> (\<not> pos_def (normal_matrix code lambd) \<longrightarrow> update_dict_ridge x code lambd = Inl LinAlgError)"
proof -
  let ?M = "normal_matrix code lambd" and ?rhs = "matmul (mT code) x"
  have sym: "symmetric ?M" by (rule symmetric_normal_matrix)
  have k: "size1 code = k" using assms(2,3) by (rule size1_wf)
  have lenM: "length ?M = k" using k by (simp add: length_normal_matrix)
  have rhs: "wf_mat k f ?rhs"
    using assms(1,3) k by (intro wf_matmul) (simp_all add: mT_def)
  have bad: "update_dict_ridge x code lambd = Inl LinAlgError" if "\<not> pos_def ?M"
    using cholesky_pos_def[OF sym] that unfolding update_dict_ridge_eq[OF assms(1,2)] by simp
  have good: "\<exists>V. update_dict_ridge x code lambd = Inr (mT V) \<and> wf_mat k f V \<and> matmul ?M V = ?rhs"
    if pd: "pos_def ?M"
  proof -
    obtain L where L: "cholesky ?M = Inr L" "length L = k"
      using cholesky_pos_def[OF sym] pd lenM by auto
    let ?S = "map (\<lambda>b. backward_subst L (forward_subst L b)) (mT ?rhs)"
    let ?V = "cholesky_solve ?rhs L"
    have V: "?V = mT ?S" by (simp add: cholesky_solve_def)
    have colsB: "wf_mat f k (mT ?rhs)" using rhs assms(5) by (rule wf_mT)
    have S: "wf_mat f k ?S" using colsB L(2) by (simp add: wf_mat_def list_all_iff)
    have wfV: "wf_mat k f ?V" unfolding V using S assms(4) by (rule wf_mT)
    have "matvec ?M (col ?V j) = col ?rhs j" if j: "j < f" for j
    proof -
      have bj: "mT ?rhs ! j = col ?rhs j"
        using j rhs assms(5) by (simp add: mT_def size1_wf)
      have "col ?V j = ?S ! j" unfolding V using S j assms(4) by (rule col_mT)
      also have "\<dots> = backward_subst L (forward_subst L (col ?rhs j))"
        using j colsB bj by (simp add: wf_mat_def)
      finally have "col ?V j = backward_subst L (forward_subst L (col ?rhs j))" .
      moreover have "length (col ?rhs j) = length ?M" using rhs lenM by (simp add: col_def wf_mat_def)
      ultimately show ?thesis using cholesky_solves[OF sym L(1)] by simp
    qed
    then have "matmul ?M ?V = ?rhs"
      using rhs lenM size1_wf[OF wfV assms(5)] by (intro matmul_cols) simp_all
    moreover have "update_dict_ridge x code lambd = Inr (mT ?V)"
      unfolding update_dict_ridge_eq[OF assms(1,2)] by (simp add: L(1))
    ultimately show ?thesis using wfV by blast
  qed
  show ?thesis using good bad by blast
qed

subsection \<open>Rounded arithmetic\<close>

text \<open>With the identity as rounding, the rounded computation is the exact one.\<close>

lemma foldl_dot_exact:
  "foldl (\<lambda>acc (a, b). acc + a * b) s (zip u v) = s + dot u v"
  by (induction u v arbitrary: s rule: list_induct2') (simp_all add: dot_def)

lemma dot_fl_exact: "dot_fl (\<lambda>v. v) u v = dot u v"
  by (simp add: dot_fl_def foldl_dot_exact)

lemma matmul_fl_exact: "matmul_fl (\<lambda>v. v) A B = matmul A B"
  by (simp add: matmul_fl_def matmul_def vecmat_fl_def vecmat_def dot_fl_exact)

lemma cholesky_fl_exact: "cholesky_fl (\<lambda>v. v) M = cholesky M"
  by (induction M rule: cholesky.induct) (simp_all add: Let_def)

lemma forward_subst_fl_exact: "forward_subst_fl (\<lambda>v. v) L b = forward_subst L b"
  by (induction L b rule: forward_subst.induct) (simp_all add: Let_def)

lemma backward_subst_fl_exact: "backward_subst_fl (\<lambda>v. v) L y = backward_subst L y"
  by (induction L y rule: backward_subst.induct) (simp_all add: Let_def dot_fl_exact)

lemma cholesky_solve_fl_exact: "cholesky_solve_fl (\<lambda>v. v) B L = cholesky_solve B L"
  by (simp add: cholesky_solve_fl_def cholesky_solve_def forward_subst_fl_exact backward_subst_fl_exact)

lemma add_diagonal_fl_exact: "add_diagonal_fl (\<lambda>v. v) M a = add_diagonal M a"
  by (simp add: add_diagonal_fl_def add_diagonal_def)

lemma update_dict_ridge_fl_exact:
  "update_dict_ridge_fl (\<lambda>v. v) x code lambd = update_dict_ridge x code lambd"
  unfolding update_dict_ridge_fl_def update_dict_ridge_def matmul_fl_exact cholesky_fl_exact
    cholesky_solve_fl_exact add_diagonal_fl_exact ..

text \<open>
  A row of zeros stays a row of zeros in every Schur complement, whatever the rounding,
  as long as zero is rounded to zero: the factorisation fails at its pivot, or before. An
  all-zero column of the code gives such a row when nothing is added to the diagonal.
\<close>

lemma map2_zero_row:
  "fl 0 = 0 \<Longrightarrow> length v = m \<Longrightarrow>
     map2 (\<lambda>vj b. fl (b - fl (0 * vj))) v (replicate m (0::real)) = replicate m (0::real)"
  by (induction v arbitrary: m) auto

lemma cholesky_fl_zero_row:
  "fl 0 = 0 \<Longrightarrow> wf_mat n n M \<Longrightarrow> j < n \<Longrightarrow> M ! j = replicate n 0
     \<Longrightarrow> cholesky_fl fl M = Inl LinAlgError"
proof (induction fl M arbitrary: n j rule: cholesky_fl.induct)
  case (1 fl)
  then show ?case by (simp add: wf_mat_def)
next
  case (2 fl rows)
  then show ?case by (auto simp: wf_mat_def)
next
  case (3 fl a r rows)
  note fl0 = "3.prems"(1) and wf = "3.prems"(2) and jn = "3.prems"(3) and row = "3.prems"(4)
  show ?case
  proof (cases "a \<le> 0")
    case True
    then show ?thesis by simp
  next
    case False
    define l where "l = fl (sqrt a)"
    define v where "v = map (\<lambda>q. fl (hd q / l)) rows"
    define S where "S = map2 (\<lambda>vi q. map2 (\<lambda>vj b. fl (b - fl (vi * vj))) v (tl q)) v rows"
    have n: "n = Suc (length rows)" using wf by (simp add: wf_mat_def)
    have rows: "\<forall>q \<in> set rows. length q = n" using wf by (simp add: wf_mat_def list_all_iff)
    have "j \<noteq> 0"
    proof
      assume "j = 0"
      then have "a # r = replicate n 0" using row by simp
      then have "a = 0" using n by simp
      then show False using False by simp
    qed
    then obtain j' where j: "j = Suc j'" by (cases j) auto
    have j': "j' < length rows" using jn j n by simp
    have qj: "rows ! j' = replicate n 0" using row j by simp
    have lv: "length v = length rows" by (simp add: v_def)
    have wfS: "wf_mat (length rows) (length rows) S"
      unfolding S_def wf_mat_def list_all_iff using rows lv n
      by (auto dest!: set_zip_rightD)
    have vj: "v ! j' = 0" using j' qj n fl0 by (simp add: v_def)
    have tlq: "tl (rows ! j') = replicate (length rows) 0" using qj n by simp
    have "S ! j' = map2 (\<lambda>vj b. fl (b - fl (v ! j' * vj))) v (tl (rows ! j'))"
      using j' lv by (simp add: S_def)
    also have "\<dots> = map2 (\<lambda>vj b. fl (b - fl (0 * vj))) v (replicate (length rows) 0)"
      by (simp only: vj tlq)
    also have "\<dots> = replicate (length rows) 0" using fl0 lv by (rule map2_zero_row)
    finally have Sj: "S ! j' = replicate (length rows) 0" .
    have "cholesky_fl fl S = Inl LinAlgError"
      using "3.IH"[OF False l_def v_def S_def fl0 wfS j' Sj] .
    then show ?thesis using False by (simp add: Let_def l_def v_def S_def)
  qed
qed

lemma dot_fl_zero:
  "fl 0 = 0 \<Longrightarrow> list_all (\<lambda>a. a = 0) u \<Longrightarrow> dot_fl fl u v = 0"
  unfolding dot_fl_def by (induction u v rule: list_induct2') simp_all

lemma add_diagonal_fl_nth:
  "i < length M \<Longrightarrow> add_diagonal_fl fl M a ! i = (M ! i)[i := fl (M ! i ! i + a)]"
  by (simp add: add_diagonal_fl_def nth_enumerate_eq)

lemma wf_add_diagonal_fl: "wf_mat n m M \<Longrightarrow> wf_mat n m (add_diagonal_fl fl M a)"
  by (auto simp: wf_mat_def add_diagonal_fl_def list_all_iff in_set_enumerate_eq)

lemma ridge_fl_zero_column:
  assumes "fl 0 = 0" "wf_mat n f x" "wf_mat n k code" "0 < n" "j < k"
    and "list_all (\<lambda>a. a = 0) (col code j)" "lambd * real n = 0"
  shows "update_dict_ridge_fl fl x code lambd = Inl LinAlgError"
proof -
  let ?G = "matmul_fl fl (mT code) code"
  let ?M = "add_diagonal_fl fl ?G (fl (lambd * real (size0 x)))"
  have k: "size1 code = k" using assms(3,4) by (rule size1_wf)
  have "size0 x = n" using assms(2) by (simp add: size0_def wf_mat_def)
  then have a: "fl (lambd * real (size0 x)) = 0"
    using assms(1,7) by (simp only:)
  have G: "wf_mat k k ?G"
    by (simp add: wf_mat_def matmul_fl_def vecmat_fl_def mT_def k list_all_iff)
  have "?G ! j = map (\<lambda>i. dot_fl fl (col code j) (col code i)) [0..<k]"
    using assms(5) by (simp add: matmul_fl_def vecmat_fl_def mT_def k)
  also have "\<dots> = map (\<lambda>i. 0) [0..<k]"
    using assms(1,6) by (simp add: dot_fl_zero)
  also have "\<dots> = replicate k 0" by (simp add: map_replicate_const)
  finally have Gj: "?G ! j = replicate k 0" .
  have "?M ! j = (replicate k 0)[j := fl (replicate k 0 ! j + 0)]"
    using add_diagonal_fl_nth[of j ?G fl "fl (lambd * real (size0 x))"] G assms(5)
    unfolding a Gj by (simp add: wf_mat_def)
  also have "\<dots> = replicate k 0"
    using assms(1,5) by (simp add: list_eq_iff_nth_eq nth_list_update)
  finally have Mj: "?M ! j = replicate k 0" .
  have "wf_mat k k ?M" using G by (rule wf_add_diagonal_fl)
  then have "cholesky_fl fl ?M = Inl LinAlgError"
    using assms(1,5) Mj by (intro cholesky_fl_zero_row[of fl k _ j]) simp_all
  then show ?thesis by (simp add: update_dict_ridge_fl_def Let_def)
qed

lemma ridge_fl_cases:
  assumes "wf_mat n f x" and "wf_mat n k code" and "0 < n" and "0 < f" and "0 < k"
  shows "(pos_def (normal_matrix code lambd) \<longrightarrow>
            (\<exists>V. update_dict_ridge_fl (\<lambda>v. v) x code lambd = Inr (mT V) \<and> wf_mat k f V
                 \<and> matmul (normal_matrix code lambd) V = matmul (mT code) x))
       \<and> (\<not> pos_def (normal_matrix code lambd) \<longrightarrow>
            update_dict_ridge_fl (\<lambda>v. v) x code lambd = Inl LinAlgError)
       \<and> (fl 0 = 0 \<and> j < k \<and> list_all (\<lambda>a. a = 0) (col code j) \<and> lambd * real n = 0 \<longrightarrow>
            update_dict_ridge_fl fl x code lambd = Inl LinAlgError)"
  using ridge_update_cases[OF assms, of lambd] ridge_fl_zero_column[OF _ assms(1,2,3), of fl j lambd]
  unfolding update_dict_ridge_fl_exact by blast

text \<open>
  Rounding to \<open>binary32\<close>, on the numbers the factorisation of the matrix with all entries 2
  meets.
\<close>

lemma rne_unique: "\<bar>y - of_int n\<bar> < 1 / 2 \<Longrightarrow> rne y = n"
proof -
  assume a: "\<bar>y - of_int n\<bar> < 1 / 2"
  show ?thesis
  proof (cases "of_int n \<le> y")
    case True
    then have "\<lfloor>y\<rfloor> = n" using a by (intro floor_unique) auto
    then show ?thesis using a True by (simp add: rne_def)
  next
    case False
    then have "\<lfloor>y\<rfloor> = n - 1" using a by (intro floor_unique) auto
    then show ?thesis using a False by (auto simp: rne_def Let_def)
  qed
qed

lemma round_to_eval:
  assumes "2 powi e \<le> \<bar>x\<bar>" "\<bar>x\<bar> < 2 powi (e + 1)"
    and "\<bar>x * 2 powi (int p - 1 - e) - of_int n\<bar> < 1 / 2"
  shows "round_to p x = of_int n * 2 powi (e - (int p - 1))"
proof -
  have pos: "0 < \<bar>x\<bar>" using assms(1) by (smt (verit) zero_less_power_int)
  have "\<lfloor>log 2 \<bar>x\<bar>\<rfloor> = e"
  proof (rule floor_unique)
    show "of_int e \<le> log 2 \<bar>x\<bar>"
      using assms(1) pos by (simp add: le_log_iff powr_real_of_int')
    have "(2::real) powr (of_int e + 1) = 2 powi (e + 1)"
      using powr_real_of_int'[of 2 "e + 1"] by simp
    then show "log 2 \<bar>x\<bar> < of_int e + 1"
      using assms(2) pos by (simp add: log_less_iff)
  qed
  then show ?thesis using pos rne_unique[OF assms(3)] by (simp add: round_to_def Let_def)
qed

lemma binary32_0: "binary32 0 = 0"
  by (simp add: binary32_def round_to_def)

lemma binary32_1: "binary32 1 = 1"
  unfolding binary32_def using round_to_eval[of 0 1 24 "2 ^ 23"] by simp

lemma binary32_2: "binary32 2 = 2"
  unfolding binary32_def using round_to_eval[of 1 2 24 "2 ^ 23"] by simp

lemma sqrt2_bounds: "11863282.5 / 2 ^ 23 < sqrt 2" "sqrt 2 < 11863283.5 / 2 ^ 23"
  by (rule real_less_rsqrt, simp add: power2_eq_square) (rule real_less_lsqrt, simp_all add: power2_eq_square)

lemma binary32_sqrt2: "binary32 (sqrt 2) = 11863283 / 2 ^ 23"
proof -
  have "1 \<le> sqrt 2" "sqrt 2 < 2" using sqrt2_bounds by simp_all
  moreover have "sqrt 2 * 2 ^ 23 - 11863283 < 1 / 2" "- (1 / 2) < sqrt 2 * 2 ^ 23 - 11863283"
    using sqrt2_bounds by (simp_all add: field_simps)
  then have "\<bar>sqrt 2 * 2 ^ 23 - 11863283\<bar> < 1 / 2" by (simp only: abs_less_iff) simp
  ultimately show ?thesis
    unfolding binary32_def using round_to_eval[of 0 "sqrt 2" 24 11863283] by simp
qed

lemma binary32_quot: "binary32 (2 / (11863283 / 2 ^ 23)) = 11863283 / 2 ^ 23"
  unfolding binary32_def using round_to_eval[of 0 "2 / (11863283 / 2 ^ 23)" 24 11863283] by simp

lemma binary32_square: "binary32 (11863283 / 2 ^ 23 * (11863283 / 2 ^ 23)) = 16777215 / 2 ^ 23"
  unfolding binary32_def
  using round_to_eval[of 0 "11863283 / 2 ^ 23 * (11863283 / 2 ^ 23)" 24 16777215] by simp

lemma binary32_pivot: "binary32 (2 - 16777215 / 2 ^ 23) = 1 / 2 ^ 23"
  unfolding binary32_def
  using round_to_eval[of "- 23" "2 - 16777215 / 2 ^ 23" 24 "2 ^ 23"] by simp

lemma binary32_sqrt_pivot: "binary32 (sqrt (1 / 2 ^ 23)) = 11863283 / 2 ^ 35"
proof -
  have "sqrt (1 / 2 ^ 23) = sqrt (2 / (2 ^ 12)\<^sup>2)" by simp
  also have "\<dots> = sqrt 2 / 2 ^ 12" by (simp only: real_sqrt_divide real_sqrt_abs) simp
  finally have eq: "sqrt (1 / 2 ^ 23) = sqrt 2 / 2 ^ 12" .
  have "1 \<le> sqrt 2" "sqrt 2 < 2" using sqrt2_bounds by simp_all
  moreover have "sqrt 2 * 2 ^ 23 - 11863283 < 1 / 2" "- (1 / 2) < sqrt 2 * 2 ^ 23 - 11863283"
    using sqrt2_bounds by (simp_all add: field_simps)
  then have "\<bar>sqrt 2 * 2 ^ 23 - 11863283\<bar> < 1 / 2" by (simp only: abs_less_iff) simp
  ultimately show ?thesis
    unfolding binary32_def eq using round_to_eval[of "- 12" "sqrt 2 / 2 ^ 12" 24 11863283]
    by (simp add: field_simps)
qed

lemma cholesky_fl_singular:
  "cholesky_fl binary32 [[2, 2], [2, 2]]
     = Inr [[11863283 / 2 ^ 23, 0], [11863283 / 2 ^ 23, 11863283 / 2 ^ 35]]"
proof -
  define l :: real where "l = 11863283 / 2 ^ 23"
  define p :: real where "p = 1 / 2 ^ 23"
  define l' :: real where "l' = 11863283 / 2 ^ 35"
  have 1: "binary32 (sqrt 2) = l" by (simp only: l_def binary32_sqrt2)
  have 2: "binary32 (2 / l) = l" by (simp only: l_def binary32_quot)
  have 3: "binary32 (l * l) = 2 - p"
    unfolding l_def p_def by (simp only: binary32_square) simp
  have 4: "binary32 p = p" using binary32_pivot unfolding p_def by simp
  have 5: "binary32 (sqrt p) = l'" by (simp only: p_def l'_def binary32_sqrt_pivot)
  have 6: "\<not> p \<le> 0" by (simp add: p_def)
  have "cholesky_fl binary32 [[2, 2], [2, 2]] = Inr [[l, 0], [l, l']]"
    by (simp add: Let_def 1 2 3 4 5 6)
  then show ?thesis by (simp only: l_def l'_def)
qed

lemma normal_matrix_fl_singular:
  "add_diagonal_fl binary32 (matmul_fl binary32 (mT [[1, 1], [1, 1]]) [[1, 1], [1, 1]])
      (binary32 (0 * real (size0 [[1, 2], [3, 4 :: real]]))) = [[2, 2], [2, 2]]"
  by (simp add: add_diagonal_fl_def matmul_fl_def vecmat_fl_def dot_fl_def mT_def col_def size1_def
      size0_def upt_rec binary32_0 binary32_1 binary32_2)

lemma update_dict_ridge_fl_singular:
  "\<exists>D. update_dict_ridge_fl binary32 [[1, 2], [3, 4]] [[1, 1], [1, 1]] 0 = Inr D"
  unfolding update_dict_ridge_fl_def Let_def normal_matrix_fl_singular cholesky_fl_singular
  by simp

text \<open>The same in \<open>binary64\<close>.\<close>

lemma binary64_0: "binary64 0 = 0"
  by (simp add: binary64_def round_to_def)

lemma binary64_1: "binary64 1 = 1"
  unfolding binary64_def using round_to_eval[of 0 1 53 "2 ^ 52"] by simp

lemma binary64_2: "binary64 2 = 2"
  unfolding binary64_def using round_to_eval[of 1 2 53 "2 ^ 52"] by simp

lemma sqrt2_bounds64:
  "6369051672525772.5 / 2 ^ 52 < sqrt 2" "sqrt 2 < 6369051672525773.5 / 2 ^ 52"
  by (rule real_less_rsqrt, simp add: power2_eq_square) (rule real_less_lsqrt, simp_all add: power2_eq_square)

lemma sqrt2_near64: "\<bar>sqrt 2 * 2 ^ 52 - 6369051672525773\<bar> < 1 / 2"
proof -
  have "sqrt 2 * 2 ^ 52 - 6369051672525773 < 1 / 2" "- (1 / 2) < sqrt 2 * 2 ^ 52 - 6369051672525773"
    using sqrt2_bounds64 by (simp_all add: field_simps)
  then show ?thesis by (simp only: abs_less_iff) simp
qed

lemma binary64_sqrt2: "binary64 (sqrt 2) = 6369051672525773 / 2 ^ 52"
proof -
  have "1 \<le> sqrt 2" "sqrt 2 < 2" using sqrt2_bounds by simp_all
  then show ?thesis
    unfolding binary64_def using round_to_eval[of 0 "sqrt 2" 53 6369051672525773] sqrt2_near64 by simp
qed

lemma binary64_quot: "binary64 (2 / (6369051672525773 / 2 ^ 52)) = 6369051672525772 / 2 ^ 52"
  unfolding binary64_def
  using round_to_eval[of 0 "2 / (6369051672525773 / 2 ^ 52)" 53 6369051672525772] by simp

lemma binary64_square:
  "binary64 (6369051672525772 / 2 ^ 52 * (6369051672525772 / 2 ^ 52)) = 9007199254740990 / 2 ^ 52"
  unfolding binary64_def
  using round_to_eval[of 0 "6369051672525772 / 2 ^ 52 * (6369051672525772 / 2 ^ 52)" 53 9007199254740990]
  by simp

lemma binary64_pivot: "binary64 (2 - 9007199254740990 / 2 ^ 52) = 1 / 2 ^ 51"
  unfolding binary64_def
  using round_to_eval[of "- 51" "2 - 9007199254740990 / 2 ^ 52" 53 "2 ^ 52"] by simp

lemma binary64_sqrt_pivot: "binary64 (sqrt (1 / 2 ^ 51)) = 6369051672525773 / 2 ^ 78"
proof -
  have "sqrt (1 / 2 ^ 51) = sqrt (2 / (2 ^ 26)\<^sup>2)" by simp
  also have "\<dots> = sqrt 2 / 2 ^ 26" by (simp only: real_sqrt_divide real_sqrt_abs) simp
  finally have eq: "sqrt (1 / 2 ^ 51) = sqrt 2 / 2 ^ 26" .
  have "1 \<le> sqrt 2" "sqrt 2 < 2" using sqrt2_bounds by simp_all
  then show ?thesis
    unfolding binary64_def eq
    using round_to_eval[of "- 26" "sqrt 2 / 2 ^ 26" 53 6369051672525773] sqrt2_near64
    by (simp add: field_simps)
qed

lemma cholesky_fl_singular64:
  "cholesky_fl binary64 [[2, 2], [2, 2]]
     = Inr [[6369051672525773 / 2 ^ 52, 0], [6369051672525772 / 2 ^ 52, 6369051672525773 / 2 ^ 78]]"
proof -
  define l :: real where "l = 6369051672525773 / 2 ^ 52"
  define v :: real where "v = 6369051672525772 / 2 ^ 52"
  define p :: real where "p = 1 / 2 ^ 51"
  define l' :: real where "l' = 6369051672525773 / 2 ^ 78"
  have 1: "binary64 (sqrt 2) = l" by (simp only: l_def binary64_sqrt2)
  have 2: "binary64 (2 / l) = v" by (simp only: l_def v_def binary64_quot)
  have 3: "binary64 (v * v) = 2 - p"
    unfolding v_def p_def by (simp only: binary64_square) simp
  have 4: "binary64 p = p" using binary64_pivot unfolding p_def by simp
  have 5: "binary64 (sqrt p) = l'" by (simp only: p_def l'_def binary64_sqrt_pivot)
  have 6: "\<not> p \<le> 0" by (simp add: p_def)
  have "cholesky_fl binary64 [[2, 2], [2, 2]] = Inr [[l, 0], [v, l']]"
    by (simp add: Let_def 1 2 3 4 5 6)
  then show ?thesis by (simp only: l_def v_def l'_def)
qed

lemma normal_matrix_fl_singular64:
  "add_diagonal_fl binary64 (matmul_fl binary64 (mT [[1, 1], [1, 1]]) [[1, 1], [1, 1]])
      (binary64 (0 * real (size0 [[1, 2], [3, 4 :: real]]))) = [[2, 2], [2, 2]]"
  by (simp add: add_diagonal_fl_def matmul_fl_def vecmat_fl_def dot_fl_def mT_def col_def size1_def
      size0_def upt_rec binary64_0 binary64_1 binary64_2)

lemma update_dict_ridge_fl_singular64:
  "\<exists>D. update_dict_ridge_fl binary64 [[1, 2], [3, 4]] [[1, 1], [1, 1]] 0 = Inr D"
  unfolding update_dict_ridge_fl_def Let_def normal_matrix_fl_singular64 cholesky_fl_singular64
  by simp

text \<open>
  C6. For observations \<open>x\<close> (\<open>n\<close> samples, \<open>f\<close> features) and a code (\<open>n\<close> samples, \<open>k\<close>
  components), with \<open>M = Z\<^sup>T Z + lambd * n * I\<close>. Computed in exact arithmetic: when \<open>M\<close> is
  positive definite, \<open>update_dict_ridge\<close> returns the transpose of a \<open>k\<close> by \<open>f\<close> matrix \<open>V\<close>
  with \<open>M V = Z\<^sup>T x\<close>, obtained from the Cholesky factor of \<open>M\<close>; when \<open>M\<close> is not positive
  definite, the call fails with the error of the factorisation. Computed with any rounding
  that keeps zero: when a column of the code is all zero and nothing is added to the
  diagonal, the call fails with the error of the factorisation.
\<close>

theorem update_dict_ridge_fl_solves:
  assumes "wf_mat n f x" and "wf_mat n k code" and "0 < n" and "0 < f" and "0 < k"
  shows "(pos_def (normal_matrix code lambd) \<longrightarrow>
            (\<exists>V. update_dict_ridge_fl (\<lambda>v. v) x code lambd = Inr (mT V) \<and> wf_mat k f V
                 \<and> matmul (normal_matrix code lambd) V = matmul (mT code) x))
       \<and> (\<not> pos_def (normal_matrix code lambd) \<longrightarrow>
            update_dict_ridge_fl (\<lambda>v. v) x code lambd = Inl LinAlgError)
       \<and> (fl 0 = 0 \<and> j < k \<and> list_all (\<lambda>a. a = 0) (col code j) \<and> lambd * real n = 0 \<longrightarrow>
            update_dict_ridge_fl fl x code lambd = Inl LinAlgError)"
  using assms by (rule ridge_fl_cases)

lemma normal_matrix_ex1: "normal_matrix [[1, 0], [0, 1]] (3 / 2) = [[4, 0], [0, 4]]"
  by (simp add: normal_matrix_def add_diagonal_def tensor_defs upt_rec)

lemma normal_matrix_ex2: "normal_matrix [[0, 0], [0, 0]] 0 = [[0, 0], [0, 0]]"
  by (simp add: normal_matrix_def add_diagonal_def tensor_defs upt_rec)

lemma cholesky_ex1: "cholesky [[4, 0], [0, 4]] = Inr [[2, 0], [0, 2]]"
  by simp

lemma cholesky_ex2: "cholesky [[0, 0], [0, 0]] = Inl LinAlgError"
  by simp

theorem update_dict_ridge_fl_solves_witness:
  "wf_mat 2 2 [[1, 2], [3, 4 :: real]] \<and> wf_mat 2 2 [[1, 0], [0, 1 :: real]]
   \<and> wf_mat 2 2 [[0, 0], [0, 0 :: real]] \<and> wf_mat 2 2 [[1, 0], [1, 0 :: real]]
   \<and> pos_def (normal_matrix [[1, 0], [0, 1]] (3 / 2))
   \<and> (\<exists>V. update_dict_ridge_fl (\<lambda>v. v) [[1, 2], [3, 4]] [[1, 0], [0, 1]] (3 / 2) = Inr (mT V)
          \<and> wf_mat 2 2 V
          \<and> matmul (normal_matrix [[1, 0], [0, 1]] (3 / 2)) V = matmul (mT [[1, 0], [0, 1]]) [[1, 2], [3, 4]])
   \<and> update_dict_ridge_fl (\<lambda>v. v) [[1, 2], [3, 4]] [[1, 0], [0, 1]] (3 / 2)
        = Inr [[1 / 4, 3 / 4], [1 / 2, 1]]
   \<and> \<not> pos_def (normal_matrix [[0, 0], [0, 0]] 0)
   \<and> update_dict_ridge_fl (\<lambda>v. v) [[1, 2], [3, 4]] [[0, 0], [0, 0]] 0 = Inl LinAlgError
   \<and> binary32 0 = 0
   \<and> list_all (\<lambda>a. a = 0) (col [[1, 0], [1, 0 :: real]] 1)
   \<and> update_dict_ridge_fl binary32 [[1, 2], [3, 4]] [[1, 0], [1, 0]] 0 = Inl LinAlgError"
proof -
  have x: "wf_mat 2 2 [[1, 2], [3, 4 :: real]]" by (simp add: wf_mat_def)
  have c1: "wf_mat 2 2 [[1, 0], [0, 1 :: real]]" by (simp add: wf_mat_def)
  have c2: "wf_mat 2 2 [[0, 0], [0, 0 :: real]]" by (simp add: wf_mat_def)
  have c3: "wf_mat 2 2 [[1, 0], [1, 0 :: real]]" by (simp add: wf_mat_def)
  have pd: "pos_def (normal_matrix [[1, 0], [0, 1]] (3 / 2))"
    using cholesky_Inr_length[OF symmetric_normal_matrix, of "[[1, 0], [0, 1]]" "3 / 2" "[[2, 0], [0, 2]]"]
    unfolding normal_matrix_ex1 cholesky_ex1 by simp
  have npd: "\<not> pos_def (normal_matrix [[0, 0], [0, 0]] 0)"
    using cholesky_pos_def[OF symmetric_normal_matrix, of "[[0, 0], [0, 0]]" 0]
    unfolding normal_matrix_ex2 cholesky_ex2 by auto
  have ev: "update_dict_ridge_fl (\<lambda>v. v) [[1, 2], [3, 4]] [[1, 0], [0, 1]] (3 / 2)
              = Inr [[1 / 4, 3 / 4], [1 / 2, 1]]"
    unfolding update_dict_ridge_fl_exact
    by (simp add: update_dict_ridge_def add_diagonal_def cholesky_solve_def tensor_defs upt_rec Let_def)
  have z: "list_all (\<lambda>a. a = 0) (col [[1, 0], [1, 0 :: real]] 1)" by (simp add: col_def)
  have h: "binary32 0 = 0 \<and> (1 :: nat) < 2 \<and> list_all (\<lambda>a. a = 0) (col [[1, 0], [1, 0 :: real]] 1)
           \<and> 0 * real 2 = 0"
    using z binary32_0 by simp
  show ?thesis
    using x c1 c2 c3 pd npd ev z binary32_0
      update_dict_ridge_fl_solves[OF x c1, of "3 / 2"] update_dict_ridge_fl_solves[OF x c2, of 0]
      update_dict_ridge_fl_solves[OF x c3, of 0 binary32 1] h
    by simp
qed

lemma normal_matrix_ex3: "normal_matrix [[1, 1], [1, 1]] 0 = [[2, 2], [2, 2]]"
  by (simp add: normal_matrix_def add_diagonal_def tensor_defs upt_rec)

lemma cholesky_ex3: "cholesky [[2, 2], [2, 2]] = Inl LinAlgError"
  by (simp add: Let_def field_simps)

text \<open>
  For the code with all entries 1 and no ridge weight, \<open>M\<close> has all entries 2 and is
  singular, not positive definite, and the exact factorisation fails at the second pivot
  \<open>2 - sqrt 2 * sqrt 2 = 0\<close>. In \<open>binary32\<close> the square root of 2 is rounded down, the
  second pivot is computed as \<open>2 - (2 - 1 / 2 ^ 23) = 1 / 2 ^ 23\<close>, the factorisation
  succeeds and a dictionary is returned. In \<open>binary64\<close> the square root is rounded up, the
  quotient \<open>2 / l\<close> down, the second pivot is \<open>1 / 2 ^ 51\<close>, and a dictionary is returned
  as well.
\<close>

theorem update_dict_ridge_singular:
  "wf_mat 2 2 [[1, 2], [3, 4 :: real]] \<and> wf_mat 2 2 [[1, 1], [1, 1 :: real]]
   \<and> normal_matrix [[1, 1], [1, 1]] 0 = [[2, 2], [2, 2]]
   \<and> \<not> pos_def (normal_matrix [[1, 1], [1, 1]] 0)
   \<and> update_dict_ridge_fl (\<lambda>v. v) [[1, 2], [3, 4]] [[1, 1], [1, 1]] 0 = Inl LinAlgError
   \<and> cholesky_fl binary32 [[2, 2], [2, 2]]
        = Inr [[11863283 / 2 ^ 23, 0], [11863283 / 2 ^ 23, 11863283 / 2 ^ 35]]
   \<and> (\<exists>D. update_dict_ridge_fl binary32 [[1, 2], [3, 4]] [[1, 1], [1, 1]] 0 = Inr D)
   \<and> cholesky_fl binary64 [[2, 2], [2, 2]]
        = Inr [[6369051672525773 / 2 ^ 52, 0], [6369051672525772 / 2 ^ 52, 6369051672525773 / 2 ^ 78]]
   \<and> (\<exists>D. update_dict_ridge_fl binary64 [[1, 2], [3, 4]] [[1, 1], [1, 1]] 0 = Inr D)"
proof -
  have npd: "\<not> pos_def (normal_matrix [[1, 1], [1, 1]] 0)"
    using cholesky_pos_def[OF symmetric_normal_matrix, of "[[1, 1], [1, 1]]" 0]
    unfolding normal_matrix_ex3 cholesky_ex3 by auto
  have ex: "update_dict_ridge_fl (\<lambda>v. v) [[1, 2], [3, 4]] [[1, 1], [1, 1]] 0 = Inl LinAlgError"
    unfolding update_dict_ridge_fl_exact
    using update_dict_ridge_eq[of 2 2 "[[1, 2], [3, 4]]" 2 "[[1, 1], [1, 1]]" 0]
    by (simp add: wf_mat_def normal_matrix_ex3 cholesky_ex3)
  have wf: "wf_mat 2 2 [[1, 2], [3, 4 :: real]]" "wf_mat 2 2 [[1, 1], [1, 1 :: real]]"
    by (simp_all add: wf_mat_def)
  show ?thesis
    using wf npd ex normal_matrix_ex3 cholesky_fl_singular update_dict_ridge_fl_singular
      cholesky_fl_singular64 update_dict_ridge_fl_singular64
    by (simp only: simp_thms)
qed






section \<open>Shapes under the dictionary update\<close>


lemma length_col [simp]: "length (col M j) = length M"
  by (simp add: col_def)














section \<open>Properties of dictionary learning\<close>

lemma progress_losses_append [simp]:
  "progress_losses (a @ b) = progress_losses a @ progress_losses b"
  by (simp add: progress_losses_def)

lemma solver_calls_append [simp]: "solver_calls (a @ b) = solver_calls a + solver_calls b"
  by (simp add: solver_calls_def)

lemma observe_simps [simp]:
  "progress_losses [] = []" "progress_losses [Progress l] = [l]"
  "progress_losses [Ista] = []" "progress_losses [CoordDescent] = []"
  "progress_losses [InitializeCode m] = []" "progress_losses [Warning w] = []"
  "solver_calls [] = 0" "solver_calls [Progress l] = 0"
  "solver_calls [Ista] = 1" "solver_calls [CoordDescent] = 1"
  "solver_calls [InitializeCode m] = 0" "solver_calls [Warning w] = 0"
  by (simp_all add: progress_losses_def solver_calls_def)













section \<open>Fitting and transforming the same image\<close>

text \<open>
  When the image that was fitted is transformed and its concentrations are estimated as
  they were at the fit, the source scale is the target scale, the factor is one, and the
  result is the reconstruction of the image's own concentrations.
\<close>

lemma nth_concat_uniform:
  "\<forall>x \<in> set xs. length x = w \<Longrightarrow> i < length xs \<Longrightarrow> j < w \<Longrightarrow> concat xs ! (i * w + j) = xs ! i ! j"
proof (induction xs arbitrary: i)
  case Nil
  then show ?case by simp
next
  case (Cons a xs)
  show ?case
  proof (cases i)
    case 0
    then show ?thesis using Cons.prems by (simp add: nth_append)
  next
    case (Suc i')
    then have "concat (a # xs) ! (i * w + j) = concat xs ! (i' * w + j)"
      using Cons.prems by (simp add: nth_append)
    then show ?thesis using Cons Suc by simp
  qed
qed

lemma clamp_exp_close:
  fixes t r d :: real
  assumes t: "0 < t" "t \<le> 1" and r: "\<bar>r + ln t\<bar> \<le> d"
  shows "\<bar>min (max (exp (- r)) 0) 1 - t\<bar> \<le> exp d - 1"
proof -
  let ?e = "- (r + ln t)"
  have e: "- d \<le> ?e" "?e \<le> d" using r by simp_all
  have d0: "0 \<le> d" using r by simp
  have ex: "exp (- r) = t * exp ?e" using t(1) by (simp add: exp_add exp_minus divide_simps exp_diff)
  have up: "exp ?e \<le> exp d" using e(2) by simp
  have lo: "exp (- d) \<le> exp ?e" using e(1) by simp
  have sym: "1 - exp (- d) \<le> exp d - 1"
  proof -
    have "1 + d \<le> exp d" by (rule exp_ge_add_one_self)
    moreover have "1 + (- d) \<le> exp (- d)" by (rule exp_ge_add_one_self)
    ultimately show ?thesis by linarith
  qed
  have pos: "0 < exp (- r)" by simp
  have A: "exp (- r) - t \<le> exp d - 1"
  proof -
    have "t * exp ?e - t \<le> t * exp d - t" using up t(1) by simp
    also have "\<dots> = t * (exp d - 1)" by (simp add: algebra_simps)
    also have "\<dots> \<le> 1 * (exp d - 1)" using t(2) d0 by (intro mult_right_mono) simp_all
    finally show ?thesis using ex by simp
  qed
  have B: "t - exp (- r) \<le> exp d - 1"
  proof -
    have "t - t * exp ?e \<le> t - t * exp (- d)" using lo t(1) by simp
    also have "\<dots> = t * (1 - exp (- d))" by (simp add: algebra_simps)
    also have "\<dots> \<le> 1 * (1 - exp (- d))" using t(2) d0 by (intro mult_right_mono) simp_all
    finally show ?thesis using ex sym by simp
  qed
  show ?thesis
  proof (cases "exp (- r) \<le> 1")
    case True
    then have "min (max (exp (- r)) 0) 1 = exp (- r)" using pos by linarith
    then show ?thesis using A B by linarith
  next
    case False
    then have g: "1 < exp (- r)" by linarith
    then have "min (max (exp (- r)) 0) 1 = 1" by linarith
    then show ?thesis using A g t(2) by linarith
  qed
qed

lemma div_broadcast_self:
  assumes "wf_mat 1 s A" "list_all (list_all (\<lambda>v. v \<noteq> 0)) A"
  shows "div_broadcast A A = [replicate s 1]"
proof -
  obtain a where A: "A = [a]" "length a = s" using assms(1) by (cases A) (auto simp: wf_mat_def)
  have nz: "\<forall>v \<in> set a. v \<noteq> 0" using assms(2) A by (simp add: list_all_iff)
  have "map2 (/) a a = replicate s 1"
    using nz A(2) by (intro nth_equalityI) (simp_all add: zip_same_conv_map)
  then show ?thesis using A by (simp add: div_broadcast_def)
qed

lemma rescale_by_one:
  assumes "wf_mat s p C"
  shows "map2 (\<lambda>row f. map (\<lambda>v. v * f) row) C (replicate s (1::real)) = C"
  using assms by (intro nth_equalityI) (simp_all add: wf_mat_def)

lemma fit_then_transform:
  assumes src: "stain_matrix_source self0 = None"
    and fit: "fit c self0 target (1 / 100) rng = (Inr (), self, rng')"
    and smt: "stain_matrix_target self = Some smt"
    and again: "get_concentrations c target smt (1 / 100) (reconst_method self) rng2 = (Inr [C], rng2')"
    and conc: "target_concentrations self = Some [C]" "wf_mat s p C"
    and scale: "maxC_target self = Some A" "wf_mat 1 s A" "list_all (list_all (\<lambda>v. v \<noteq> 0)) A"
  shows "fst (transform c self target st rng2) = spec_reconstruct [C] smt (shape4 target)"
proof -
  have len: "length target = 1"
    using fit by (auto simp: fit_def split: if_splits)
  from fit len obtain m tc where m: "get_stain_matrix self0 target = Inr m"
    and self: "self = self0\<lparr>stain_matrix_target := Some m, target_concentrations := Some tc,
                 maxC_target := Some (percentile c (map mT tc) 99 1)\<rparr>"
    by (auto simp: fit_def Let_def split: sum.splits prod.splits)
  have tc_eq: "tc = [C]" and A: "A = percentile c (map mT [C]) 99 1" and m_eq: "smt = m"
    using conc(1) scale(1) smt self by simp_all
  have rep: "repeat_stain_mat m target = m" using len by (simp add: repeat_stain_mat_def)
  have 1: "(case stain_matrix_source self of None \<Rightarrow> get_stain_matrix self target | Some m \<Rightarrow> Inr m) = Inr m"
    using src m self by simp
  have 2: "get_concentrations c target (repeat_stain_mat m target) (1 / 100) (reconst_method self) rng2
             = (Inr [C], rng2')"
    using again m_eq rep by simp
  have "spec_rescale A (percentile c (map mT [C]) 99 1) [C] = [C]"
    unfolding A[symmetric] spec_rescale_def div_broadcast_self[OF scale(2,3)]
    using rescale_by_one[OF conc(2)] by simp
  then show ?thesis
    using transform_eq[OF 1 2 scale(1), of m st] smt m_eq by simp
qed

lemma pixel_index: "i < h \<Longrightarrow> j < w \<Longrightarrow> i * w + j < h * (w::nat)"
proof -
  assume "i < h" "j < w"
  then have "i * w + j < Suc i * w" by simp
  also have "\<dots> \<le> h * w" using \<open>i < h\<close> by (intro mult_le_mono1) simp
  finally show ?thesis .
qed

lemma mT_nth:
  assumes "wf_mat n m M" "0 < n" "q < m" "k < n"
  shows "mT M ! q ! k = M ! k ! q"
  using assms size1_wf[OF assms(1,2)] by (simp add: mT_def col_def wf_mat_def)

lemma reshape_entry:
  assumes E: "wf_mat (h * w) ch E" and k: "k < ch" and i: "i < h" and j: "j < w"
    and out: "reshape4 [mT E] (1, ch, h, w) = Inr out"
  shows "out ! 0 ! k ! i ! j = E ! (i * w + j) ! k"
proof -
  have q: "i * w + j < h * w" using i j by (rule pixel_index)
  have p: "0 < h * w" using i j by simp
  have T: "wf_mat ch (h * w) (mT E)" using E p by (rule wf_mT)
  let ?flat = "concat (concat [mT E])"
  have len: "length ?flat = 1 * ch * h * w"
    using length_concat_wf[OF T] by (simp add: mult.assoc)
  have idx: "((0 * ch + k) * h + i) * w + j = k * (h * w) + (i * w + j)"
    by (simp add: algebra_simps)
  have bound: "((0 * ch + k) * h + i) * w + w \<le> 1 * ch * h * w"
    using index_bound[of 0 1 k ch i h w] k i by simp
  have "out ! 0 ! k ! i ! j = ?flat ! (((0 * ch + k) * h + i) * w + j)"
  proof -
    have "(k * h + i) * w \<le> (k * h + i) * w + w" by simp
    also have "\<dots> \<le> ch * h * w" using bound by simp
    finally have le: "(k * h + i) * w \<le> length (concat (mT E))" using len by (simp only: concat.simps append_Nil2 mult_1)
    have "out ! 0 ! k ! i ! j = drop ((k * h + i) * w) (concat (mT E)) ! j"
      using out len k i j by (auto simp: reshape4_def Let_def)
    then show ?thesis using le by (simp add: nth_drop)
  qed
  also have "\<dots> = concat (mT E) ! (k * (h * w) + (i * w + j))"
    unfolding idx by simp
  also have "\<dots> = mT E ! k ! (i * w + j)"
    using T k q by (intro nth_concat_uniform) (simp_all add: wf_mat_def list_all_iff)
  also have "\<dots> = E ! (i * w + j) ! k"
    using E p k q by (rule mT_nth)
  finally show ?thesis .
qed

lemma od_entry:
  assumes im: "length im = ch" "\<forall>y \<in> set im. wf_mat h w y" and k: "k < ch" and i: "i < h" and j: "j < w"
  shows "mT (map concat im) ! (i * w + j) ! k = im ! k ! i ! j"
proof -
  have q: "i * w + j < h * w" using i j by (rule pixel_index)
  have M: "wf_mat ch (h * w) (map concat im)"
    using im by (simp add: wf_mat_def list_all_iff length_concat_wf)
  have ch: "0 < ch" using k by simp
  have "mT (map concat im) ! (i * w + j) ! k = map concat im ! k ! (i * w + j)"
    using M ch q k by (rule mT_nth)
  also have "\<dots> = concat (im ! k) ! (i * w + j)" using k im(1) by simp
  also have "\<dots> = im ! k ! i ! j"
    using im k i j by (intro nth_concat_uniform) (auto simp: wf_mat_def list_all_iff)
  finally show ?thesis .
qed

lemma clamp_entry:
  assumes "wf_image b ch h w out" "n < b" "k < ch" "i < h" "j < w"
  shows "clamp lo hi out ! n ! k ! i ! j = min (max (out ! n ! k ! i ! j) lo) hi"
proof -
  have 1: "length out = b" using assms(1) by (simp add: wf_image_def)
  have 2: "length (out ! n) = ch" using assms(1,2) by (simp add: wf_image_def list_all_length)
  have 3: "length (out ! n ! k) = h"
    using assms(1,2,3) by (simp add: wf_image_def list_all_length)
  have 4: "length (out ! n ! k ! i) = w"
    using assms(1,2,3,4) by (simp add: wf_image_def list_all_length)
  show ?thesis using 1 2 3 4 assms(2-5) by (simp add: clamp_def)
qed

lemma image_entry:
  assumes "wf_image b ch h w img" "n < b" "k < ch" "i < h" "j < w"
  shows "map (map (map (map g))) img ! n ! k ! i ! j = g (img ! n ! k ! i ! j)"
    and "img ! n ! k ! i ! j \<in> set (img ! n ! k ! i)"
    and "img ! n ! k ! i \<in> set (img ! n ! k)" and "img ! n ! k \<in> set (img ! n)" and "img ! n \<in> set img"
proof -
  have 1: "length img = b" using assms(1) by (simp add: wf_image_def)
  have 2: "length (img ! n) = ch" using assms(1,2) by (simp add: wf_image_def list_all_length)
  have 3: "length (img ! n ! k) = h"
    using assms(1,2,3) by (simp add: wf_image_def list_all_length)
  have 4: "length (img ! n ! k ! i) = w"
    using assms(1,2,3,4) by (simp add: wf_image_def list_all_length)
  show "map (map (map (map g))) img ! n ! k ! i ! j = g (img ! n ! k ! i ! j)"
    using 1 2 3 4 assms(2-5) by simp
  show "img ! n ! k ! i ! j \<in> set (img ! n ! k ! i)" using 4 assms(5) by simp
  show "img ! n ! k ! i \<in> set (img ! n ! k)" using 3 assms(4) by simp
  show "img ! n ! k \<in> set (img ! n)" using 2 assms(3) by simp
  show "img ! n \<in> set img" using 1 assms(2) by simp
qed

text \<open>
  C9, as amended. A target with entries in \<open>(0, 1]\<close> is fitted and then transformed, the
  optical density being the negative logarithm, the concentrations being estimated as at
  the fit, and the target scale having no zero entry. When the fitted concentrations
  times the stain matrix are within \<open>d\<close> of the optical density of the target at every
  pixel and channel, the result has the shape of the target and is within \<open>exp d - 1\<close> of
  it at every entry: the target itself when the stains reproduce its optical density.
\<close>

theorem fit_transform_near_identity:
  assumes "stain_matrix_source self0 = None"
    and "fit c self0 target (1 / 100) rng = (Inr (), self, rng')"
    and "stain_matrix_target self = Some [S]" and "wf_mat s ch S" and "0 < s"
    and "get_concentrations c target [S] (1 / 100) (reconst_method self) rng2 = (Inr [C], rng2')"
    and "target_concentrations self = Some [C]" and "wf_mat s (h * w) C"
    and "maxC_target self = Some A" and "wf_mat 1 s A" and "list_all (list_all (\<lambda>v. v \<noteq> 0)) A"
    and "wf_image 1 ch h w target" and "0 < ch" and "0 < h" and "0 < w"
    and "list_all (list_all (list_all (list_all (\<lambda>v. 0 < v \<and> v \<le> 1)))) target"
    and "rgb2od c target = map (map (map (map (\<lambda>v. - ln v)))) target"
    and "\<forall>q<h * w. \<forall>k<ch.
           \<bar>matmul (mT C) S ! q ! k - mT (map concat (hd (rgb2od c target))) ! q ! k\<bar> \<le> d"
  shows "\<exists>out. fst (transform c self target st rng2) = Inr out \<and> wf_image 1 ch h w out
           \<and> (\<forall>k<ch. \<forall>i<h. \<forall>j<w. \<bar>out ! 0 ! k ! i ! j - target ! 0 ! k ! i ! j\<bar> \<le> exp d - 1)"
proof -
  let ?R = "matmul (mT C) S"
  let ?E = "map (map (\<lambda>v. exp (- v))) ?R"
  have hw: "0 < h * w" using assms(14,15) by simp
  have shp: "shape4 target = (1, ch, h, w)" using assms(12) by (rule shape4_wf) (simp_all add: assms)
  have CT: "wf_mat (h * w) s (mT C)" using assms(8,5) by (rule wf_mT)
  have R: "wf_mat (h * w) ch ?R"
    using CT assms(4,5) by (intro wf_matmul) (simp_all add: wf_mat_def)
  then have E: "wf_mat (h * w) ch ?E" by (rule wf_map_map)
  have tr: "fst (transform c self target st rng2) = spec_reconstruct [C] [S] (1, ch, h, w)"
    using fit_then_transform[OF assms(1,2,3,6,7,8,9,10,11), of st] shp by simp
  have "wf_mat ch (h * w) (mT ?E)" using E hw by (rule wf_mT)
  then have "length (concat (concat [mT ?E])) = 1 * ch * h * w"
    by (simp add: length_concat_wf mult.assoc)
  then obtain out0 where out0: "reshape4 [mT ?E] (1, ch, h, w) = Inr out0" "wf_image 1 ch h w out0"
    using reshape4_wf by blast
  have res: "fst (transform c self target st rng2) = Inr (clamp 0 1 out0)"
    unfolding tr using out0(1) by (simp add: spec_reconstruct_def batch_matmul_def)
  have "\<bar>clamp 0 1 out0 ! 0 ! k ! i ! j - target ! 0 ! k ! i ! j\<bar> \<le> exp d - 1"
    if k: "k < ch" and i: "i < h" and j: "j < w" for k i j
  proof -
    let ?q = "i * w + j" and ?t = "target ! 0 ! k ! i ! j"
    have q: "?q < h * w" using i j by (rule pixel_index)
    have z: "(0::nat) < 1" by simp
    have t: "0 < ?t \<and> ?t \<le> 1"
      using assms(16) image_entry(2-5)[OF assms(12) z k i j]
      unfolding list_all_iff by blast
    have "out0 ! 0 ! k ! i ! j = ?E ! ?q ! k" using E k i j out0(1) by (rule reshape_entry)
    also have "\<dots> = exp (- (?R ! ?q ! k))"
      using R q k by (simp add: wf_mat_def list_all_length)
    finally have o: "out0 ! 0 ! k ! i ! j = exp (- (?R ! ?q ! k))" .
    let ?im = "hd (rgb2od c target)"
    have od0: "?im = map (map (map (\<lambda>v. - ln v))) (target ! 0)"
      using assms(12) unfolding assms(17) by (cases target) (simp_all add: wf_image_def)
    have im: "length ?im = ch" "\<forall>y \<in> set ?im. wf_mat h w y"
      using assms(12) unfolding od0
      by (cases target; auto simp: wf_image_def wf_mat_def list_all_iff)+
    have "mT (map concat ?im) ! ?q ! k = ?im ! k ! i ! j" using im k i j by (rule od_entry)
    also have "\<dots> = map (map (map (map (\<lambda>v. - ln v)))) target ! 0 ! k ! i ! j"
      using od0 assms(12) by (simp add: wf_image_def)
    also have "\<dots> = - ln ?t" using assms(12) _ k i j by (rule image_entry(1)) simp
    finally have od: "mT (map concat ?im) ! ?q ! k = - ln ?t" .
    have "\<bar>?R ! ?q ! k + ln ?t\<bar> \<le> d" using assms(18) q k od by fastforce
    then have "\<bar>min (max (exp (- (?R ! ?q ! k))) 0) 1 - ?t\<bar> \<le> exp d - 1"
      using t by (intro clamp_exp_close) simp_all
    then show ?thesis
      using clamp_entry[OF out0(2) _ k i j, of 0 0 1] o by simp
  qed
  then show ?thesis using res out0(2) by (simp add: clamp_wf)
qed

lemma toy_fit: "fit toy toy_normalizer toy_target (1 / 100) (draws 0) = (Inr (), toy_fitted, draws 0)"
  unfolding toy_fitted_eq unfolding fit_def
  by (simp add: toy_target_conc[unfolded toy_normalizer_def] toy_normalizer_def)
     (simp add: toy_eval)

lemma toy_blue_conc:
  "get_concentrations toy toy_blue [[[1, 0, 0], [0, 1, 0]]] (1 / 100) ''ista'' (draws 0)
     = (Inr [[[1, 0], [0, 1 / 2]]], draws 0)"
  by (simp add: toy_eval toy_blue_def)

lemma toy_blue_fit: "fit toy toy_normalizer toy_blue (1 / 100) (draws 0) = (Inr (), toy_fitted, draws 0)"
  unfolding toy_fitted_eq unfolding fit_def
  by (simp add: toy_blue_conc[unfolded toy_normalizer_def] toy_normalizer_def toy_blue_def)
     (simp add: toy_eval)

lemma toy_reconstruct_blue:
  "spec_reconstruct [[[1, 0], [0, 1 / 2]]] [[[1, 0, 0], [0, 1, 0]]] (shape4 toy_blue) = Inr toy_target"
  by (simp add: spec_reconstruct_def batch_matmul_def reshape4_def shape4_def clamp_def toy_eval
      toy_blue_def)

text \<open>
  C9, as claimed, fails: the stains of the concrete extractor have no blue component, the
  blue channel of \<open>toy_blue\<close> is not reproduced by any concentrations, and the image comes
  back with its blue channel at 1, more than \<open>1 / 2\<close> away from \<open>exp (- 1)\<close>.
\<close>

theorem fit_transform_not_identity:
  "fit toy toy_normalizer toy_blue (1 / 100) (draws 0) = (Inr (), toy_fitted, draws 0)
   \<and> fst (transform toy toy_fitted toy_blue [] (draws 0)) = Inr toy_target
   \<and> toy_target ! 0 ! 2 ! 0 ! 0 = 1 \<and> toy_blue ! 0 ! 2 ! 0 ! 0 = exp (- 1)
   \<and> 1 / 2 \<le> \<bar>toy_target ! 0 ! 2 ! 0 ! 0 - toy_blue ! 0 ! 2 ! 0 ! 0\<bar>"
proof -
  have "fst (transform toy toy_fitted toy_blue [] (draws 0))
          = spec_reconstruct [[[1, 0], [0, 1 / 2]]] [[[1, 0, 0], [0, 1, 0]]] (shape4 toy_blue)"
    by (rule fit_then_transform[OF _ toy_blue_fit, where A = "[[1, 1 / 2]]" and s = 2 and p = 2])
       (simp_all add: toy_normalizer_def toy_fitted_eq wf_mat_def toy_blue_conc)
  then have tr: "fst (transform toy toy_fitted toy_blue [] (draws 0)) = Inr toy_target"
    by (simp only: toy_reconstruct_blue)
  have "(2::real) \<le> exp 1" using exp_ge_add_one_self[of 1] by simp
  then have "exp (- 1) \<le> (1 / 2 :: real)" by (simp add: exp_minus field_simps)
  then have "1 / 2 \<le> \<bar>1 - exp (- 1 :: real)\<bar>" by simp
  then show ?thesis using toy_blue_fit tr by (simp add: toy_target_def toy_blue_def)
qed

text \<open>On the concrete target the stains are exact, \<open>d = 0\<close>.\<close>

theorem fit_transform_near_identity_witness:
  "stain_matrix_source toy_normalizer = None
   \<and> fit toy toy_normalizer toy_target (1 / 100) (draws 0) = (Inr (), toy_fitted, draws 0)
   \<and> stain_matrix_target toy_fitted = Some [[[1, 0, 0], [0, 1, 0]]]
   \<and> get_concentrations toy toy_target [[[1, 0, 0], [0, 1, 0]]] (1 / 100) (reconst_method toy_fitted)
         (draws 0) = (Inr [[[1, 0], [0, 1 / 2]]], draws 0)
   \<and> target_concentrations toy_fitted = Some [[[1, 0], [0, 1 / 2]]]
   \<and> maxC_target toy_fitted = Some [[1, 1 / 2]]
   \<and> wf_image 1 3 1 2 toy_target
   \<and> list_all (list_all (list_all (list_all (\<lambda>v. 0 < v \<and> v \<le> 1)))) toy_target
   \<and> rgb2od toy toy_target = map (map (map (map (\<lambda>v. - ln v)))) toy_target
   \<and> matmul (mT [[1, 0], [0, 1 / 2]]) [[1, 0, 0], [0, 1, 0]]
         = mT (map concat (hd (rgb2od toy toy_target)))
   \<and> (\<exists>out. fst (transform toy toy_fitted toy_target [] (draws 0)) = Inr out
          \<and> wf_image 1 3 1 2 out
          \<and> (\<forall>k<3. \<forall>i<1. \<forall>j<2. \<bar>out ! 0 ! k ! i ! j - toy_target ! 0 ! k ! i ! j\<bar> \<le> exp 0 - 1))"
proof -
  have 1: "stain_matrix_source toy_normalizer = None" by (simp add: toy_normalizer_def)
  note 2 = toy_fit
  have 3: "stain_matrix_target toy_fitted = Some [[[1, 0, 0], [0, 1, 0]]]" by (simp add: toy_fitted_eq)
  have 4: "wf_mat 2 3 [[1, 0, 0], [0, 1, 0 :: real]]" by (simp add: wf_mat_def)
  have 6: "get_concentrations toy toy_target [[[1, 0, 0], [0, 1, 0]]] (1 / 100) (reconst_method toy_fitted)
         (draws 0) = (Inr [[[1, 0], [0, 1 / 2]]], draws 0)"
    using toy_target_conc by (simp add: toy_fitted_eq toy_normalizer_def)
  have 7: "target_concentrations toy_fitted = Some [[[1, 0], [0, 1 / 2]]]" by (simp add: toy_fitted_eq)
  have 8: "wf_mat 2 (1 * 2) [[1, 0], [0, 1 / 2 :: real]]" by (simp add: wf_mat_def)
  have 9: "maxC_target toy_fitted = Some [[1, 1 / 2]]" by (simp add: toy_fitted_eq)
  have 10: "wf_mat 1 2 [[1, 1 / 2 :: real]]" by (simp add: wf_mat_def)
  have 11: "list_all (list_all (\<lambda>v. v \<noteq> 0)) [[1, 1 / 2 :: real]]" by simp
  have 12: "wf_image 1 3 1 2 toy_target" by (simp add: wf_image_def toy_target_def)
  have 16: "list_all (list_all (list_all (list_all (\<lambda>v. 0 < v \<and> v \<le> 1)))) toy_target"
    by (simp add: toy_target_def)
  have 17: "rgb2od toy toy_target = map (map (map (map (\<lambda>v. - ln v)))) toy_target"
    by (simp add: toy_def)
  have eq: "matmul (mT [[1, 0], [0, 1 / 2]]) [[1, 0, 0], [0, 1, 0]]
         = mT (map concat (hd (rgb2od toy toy_target)))"
    by (simp add: toy_eval)
  have 18: "\<forall>q<1 * 2. \<forall>k<3.
           \<bar>matmul (mT [[1, 0], [0, 1 / 2]]) [[1, 0, 0], [0, 1, 0]] ! q ! k
             - mT (map concat (hd (rgb2od toy toy_target))) ! q ! k\<bar> \<le> 0"
    unfolding eq by simp
  show ?thesis
    using 1 2 3 6 7 9 12 16 17 eq
      fit_transform_near_identity[OF 1 2 3 4 _ 6 7 8 9 10 11 12 _ _ _ 16 17 18, of "[]"]
    by simp
qed

end
